theory Spec2Isabelle
  imports Main
begin

section \<open>Text\<close>

text \<open>
  A Python \<open>str\<close> is modelled as a \<open>string\<close>: a list of characters, each of them a code
  point below U+0100 (ASCII and Latin-1). Text with a code point from U+0100 on has no
  counterpart in the model, and nothing is said here about it.

  Type tags are the ASCII constants of the warehouse API, and \<open>upper\<close>, which is applied
  to type tags only, exchanges the letters \<open>a\<close>..\<open>z\<close> for \<open>A\<close>..\<open>Z\<close> as \<open>str.upper\<close> does on
  ASCII text. File names are arbitrary directory entries, and \<open>lower\<close> follows \<open>str.lower\<close>
  on every character of the model: below U+0100 \<open>str.lower\<close> works character by
  character, it sends \<open>A\<close>..\<open>Z\<close> to \<open>a\<close>..\<open>z\<close> and the Latin-1 capital letters U+00C0..U+00DE
  (without the multiplication sign U+00D7) to the letters U+00E0..U+00FE 32 places
  further, and it leaves every other character alone.
\<close>

definition ascii_lowercase :: string where
  "ascii_lowercase = ''abcdefghijklmnopqrstuvwxyz''"

definition ascii_uppercase :: string where
  "ascii_uppercase = ''ABCDEFGHIJKLMNOPQRSTUVWXYZ''"

definition latin1_uppercase :: string where
  "latin1_uppercase =
     [CHR 0xC0, CHR 0xC1, CHR 0xC2, CHR 0xC3, CHR 0xC4, CHR 0xC5, CHR 0xC6, CHR 0xC7,
      CHR 0xC8, CHR 0xC9, CHR 0xCA, CHR 0xCB, CHR 0xCC, CHR 0xCD, CHR 0xCE, CHR 0xCF,
      CHR 0xD0, CHR 0xD1, CHR 0xD2, CHR 0xD3, CHR 0xD4, CHR 0xD5, CHR 0xD6, CHR 0xD8,
      CHR 0xD9, CHR 0xDA, CHR 0xDB, CHR 0xDC, CHR 0xDD, CHR 0xDE]"

definition latin1_lowercase :: string where
  "latin1_lowercase =
     [CHR 0xE0, CHR 0xE1, CHR 0xE2, CHR 0xE3, CHR 0xE4, CHR 0xE5, CHR 0xE6, CHR 0xE7,
      CHR 0xE8, CHR 0xE9, CHR 0xEA, CHR 0xEB, CHR 0xEC, CHR 0xED, CHR 0xEE, CHR 0xEF,
      CHR 0xF0, CHR 0xF1, CHR 0xF2, CHR 0xF3, CHR 0xF4, CHR 0xF5, CHR 0xF6, CHR 0xF8,
      CHR 0xF9, CHR 0xFA, CHR 0xFB, CHR 0xFC, CHR 0xFD, CHR 0xFE]"

definition upper_char :: "char \<Rightarrow> char" where
  "upper_char c =
     (case map_of (zip ascii_lowercase ascii_uppercase) c of Some u \<Rightarrow> u | None \<Rightarrow> c)"

definition lower_char :: "char \<Rightarrow> char" where
  "lower_char c =
     (case map_of (zip (ascii_uppercase @ latin1_uppercase) (ascii_lowercase @ latin1_lowercase)) c
      of Some l \<Rightarrow> l | None \<Rightarrow> c)"

definition upper :: "string \<Rightarrow> string" where
  "upper s = map upper_char s"

definition lower :: "string \<Rightarrow> string" where
  "lower s = map lower_char s"

text \<open>\<open>s.endswith(suf)\<close>.\<close>

definition endswith :: "string \<Rightarrow> string \<Rightarrow> bool" where
  "endswith s suf \<longleftrightarrow> length suf \<le> length s \<and> drop (length s - length suf) s = suf"

text \<open>\<open>sep.join(xs)\<close>.\<close>

fun join :: "string \<Rightarrow> string list \<Rightarrow> string" where
  "join sep [] = []"
| "join sep [x] = x"
| "join sep (x # y # ys) = x @ sep @ join sep (y # ys)"


section \<open>The Type-Cast Resolver\<close>

text \<open>The dictionary \<open>_CAST_TARGETS\<close>, in the order it is written.\<close>

definition CAST_TARGETS :: "(string \<times> string) list" where
  "CAST_TARGETS =
     [(''STRING'', ''STRING''),
      (''BOOL'', ''BOOL''),
      (''BOOLEAN'', ''BOOL''),
      (''INT64'', ''INT64''),
      (''INTEGER'', ''INT64''),
      (''FLOAT64'', ''FLOAT64''),
      (''FLOAT'', ''FLOAT64''),
      (''NUMERIC'', ''NUMERIC''),
      (''BIGNUMERIC'', ''BIGNUMERIC''),
      (''DATE'', ''DATE''),
      (''DATETIME'', ''DATETIME''),
      (''TIMESTAMP'', ''TIMESTAMP''),
      (''TIME'', ''TIME''),
      (''GEOGRAPHY'', ''GEOGRAPHY'')]"

text \<open>\<open>_CAST_TARGETS.get(target_type.upper(), "STRING")\<close>.\<close>

definition cast_target :: "string \<Rightarrow> string" where
  "cast_target target_type =
     (case map_of CAST_TARGETS (upper target_type) of Some tgt \<Rightarrow> tgt | None \<Rightarrow> ''STRING'')"

definition safe_cast_expr :: "string \<Rightarrow> string \<Rightarrow> string \<Rightarrow> string" where
  "safe_cast_expr staging_alias col_name target_type =
     (let tgt = cast_target target_type in
      if tgt = ''STRING''
      then ''CAST('' @ staging_alias @ ''.'' @ col_name @ '' AS STRING) AS '' @ col_name
      else ''SAFE_CAST('' @ staging_alias @ ''.'' @ col_name @ '' AS '' @ tgt @ '') AS ''
             @ col_name)"

text \<open>A tag is recognized when, uppercased, it is a key of \<open>_CAST_TARGETS\<close>.\<close>

definition recognized :: "string \<Rightarrow> bool" where
  "recognized target_type \<longleftrightarrow> upper target_type \<in> set (map fst CAST_TARGETS)"


text \<open>
  The type tags of a field as the specification enumerates them, each with the target
  the specification gives it: itself.
\<close>

definition spec_type_tags :: "string list" where
  "spec_type_tags =
     [''STRING'', ''BOOL'', ''INT64'', ''FLOAT64'', ''NUMERIC'', ''BIGNUMERIC'', ''DATE'',
      ''DATETIME'', ''TIMESTAMP'', ''TIME'', ''GEOGRAPHY'']"


section \<open>Paths\<close>

text \<open>
  \<open>p.rfind(c)\<close> for a one-character \<open>c\<close>: the last index of \<open>c\<close> in \<open>p\<close>, or \<open>-1\<close>.
\<close>

definition rfind :: "string \<Rightarrow> char \<Rightarrow> int" where
  "rfind p c =
     (let k = length (takeWhile (\<lambda>x. x \<noteq> c) (rev p)) in
      if k = length p then - 1 else int (length p) - 1 - int k)"

text \<open>
  \<open>os.path.splitext\<close> (POSIX): the extension starts at the last dot of the last path
  component, unless that component has only dots in front of it.
\<close>

definition splitext :: "string \<Rightarrow> string \<times> string" where
  "splitext p =
     (let sepIndex = rfind p (CHR ''/'');
          dotIndex = rfind p (CHR ''.'') in
      if dotIndex > sepIndex \<and>
         list_ex (\<lambda>c. c \<noteq> CHR ''.'')
           (take (nat (dotIndex - (sepIndex + 1))) (drop (nat (sepIndex + 1)) p))
      then (take (nat dotIndex) p, drop (nat dotIndex) p)
      else (p, []))"

text \<open>\<open>os.path.join(a, b)\<close> (POSIX).\<close>

definition path_join :: "string \<Rightarrow> string \<Rightarrow> string" where
  "path_join a b =
     (if take 1 b = ''/'' then b
      else if a = [] \<or> endswith a ''/'' then a @ b
      else a @ ''/'' @ b)"


section \<open>The warehouse, the local files and what a run leaves behind\<close>

text \<open>A \<open>bigquery.SchemaField\<close>: a column name and a type tag.\<close>

record schema_field =
  name :: string
  field_type :: string

text \<open>A row gives each column its value as text; a column without a value is NULL.\<close>

type_synonym row = "string \<rightharpoonup> string"

record table =
  schema :: "schema_field list"
  rows :: "row list"

text \<open>The exceptions of a run; all of them are Python \<open>Exception\<close>s.\<close>

datatype error =
    NotFound
  | FileNotFoundError
  | KeyError string
  | OtherError string

text \<open>The lines the loader writes to its logger, by the place that writes them.\<close>

datatype log_line =
    Scanning string
  | Finished string
  | Failed string error
  | Deleted string
  | CouldNotDelete string error
  | Uploading string string
  | CreatingTable string
  | TableCreated string
  | LoadingStaging string
  | Inserting
  | StagingDropped string
  | AddedColumn string
  | MarkerSet string

text \<open>The calls a run makes on the warehouse client, the file system and the logger.\<close>

datatype event =
    GetTable string
  | LoadTable string
  | Query string
  | DeleteTable string
  | UpdateTable string "schema_field list"
  | OpenFile string
  | RemoveFile string
  | Log log_line

text \<open>
  The world a run acts on. \<open>tables\<close> is the warehouse, by table identity. \<open>files\<close> holds
  the local files, each as the table that loading it with schema autodetection gives.
  \<open>faults\<close> says how the coming calls on the warehouse and the file system end: the head
  is for the next call, \<open>Some e\<close> makes it raise \<open>e\<close> without any effect, \<open>None\<close> (or an empty
  list) lets it run. \<open>trace\<close> records every call made, oldest first. \<open>today\<close> and \<open>now\<close>
  are the texts of \<open>date.today()\<close> and of \<open>datetime.now().strftime('%Y%m%d%H%M%S')\<close>.
  \<open>convert\<close> is the warehouse's conversion of a value to a type, \<open>None\<close> where the value
  has no representation in that type.
\<close>

record world =
  tables :: "string \<rightharpoonup> table"
  files :: "string \<rightharpoonup> table"
  faults :: "error option list"
  trace :: "event list"
  today :: string
  now :: string
  convert :: "string \<Rightarrow> string \<Rightarrow> string option"

text \<open>A piece of the program: it runs in a world and returns a value or raises.\<close>

type_synonym 'a action = "world \<Rightarrow> (error + 'a) \<times> world"

definition return_action :: "'a \<Rightarrow> 'a action" where
  "return_action x w = (Inr x, w)"

definition raise :: "error \<Rightarrow> 'a action" where
  "raise e w = (Inl e, w)"

definition bind_action :: "'a action \<Rightarrow> ('a \<Rightarrow> 'b action) \<Rightarrow> 'b action" where
  "bind_action m k w = (case m w of (Inl e, w1) \<Rightarrow> (Inl e, w1) | (Inr x, w1) \<Rightarrow> k x w1)"

text \<open>\<open>try: m  except Exception as e: handler(e)\<close>.\<close>

definition try_except :: "'a action \<Rightarrow> (error \<Rightarrow> 'a action) \<Rightarrow> 'a action" where
  "try_except m handler w =
     (case m w of (Inl e, w1) \<Rightarrow> handler e w1 | (Inr x, w1) \<Rightarrow> (Inr x, w1))"

text \<open>\<open>try: m  finally: fin\<close>: \<open>fin\<close> runs in every case, then the outcome of \<open>m\<close> stands.\<close>

definition try_finally :: "'a action \<Rightarrow> unit action \<Rightarrow> 'a action" where
  "try_finally m fin w =
     (case m w of (r, w1) \<Rightarrow>
        (case fin w1 of (Inl e, w2) \<Rightarrow> (Inl e, w2) | (Inr u, w2) \<Rightarrow> (r, w2)))"

text \<open>A call that leaves the program: it is recorded, then faults or runs.\<close>

definition next_fault :: "world \<Rightarrow> error option" where
  "next_fault w = (case faults w of [] \<Rightarrow> None | f # fs \<Rightarrow> f)"

definition external :: "event \<Rightarrow> 'a action \<Rightarrow> 'a action" where
  "external ev body w =
     (let w1 = w\<lparr>trace := trace w @ [ev], faults := tl (faults w)\<rparr> in
      case next_fault w of
        Some e \<Rightarrow> (Inl e, w1)
      | None \<Rightarrow> body w1)"

definition logger :: "log_line \<Rightarrow> unit action" where
  "logger l w = (Inr (), w\<lparr>trace := trace w @ [Log l]\<rparr>)"

subsection \<open>The warehouse client and the file system\<close>

text \<open>\<open>client.get_table(table_id)\<close>.\<close>

definition client_get_table :: "string \<Rightarrow> table action" where
  "client_get_table table_id =
     external (GetTable table_id)
       (\<lambda>w. case tables w table_id of None \<Rightarrow> (Inl NotFound, w) | Some t \<Rightarrow> (Inr t, w))"

text \<open>\<open>open(file_path, "rb")\<close>.\<close>

definition open_file :: "string \<Rightarrow> table action" where
  "open_file file_path =
     external (OpenFile file_path)
       (\<lambda>w. case files w file_path of
               None \<Rightarrow> (Inl FileNotFoundError, w)
             | Some source_file \<Rightarrow> (Inr source_file, w))"

text \<open>
  \<open>client.load_table_from_file(source_file, table_id, job_config).result()\<close> with
  autodetection and \<open>WRITE_TRUNCATE\<close>: the table becomes what the file holds.
\<close>

definition client_load_table_from_file :: "table \<Rightarrow> string \<Rightarrow> unit action" where
  "client_load_table_from_file source_file table_id =
     external (LoadTable table_id)
       (\<lambda>w. (Inr (), w\<lparr>tables := (tables w)(table_id \<mapsto> source_file)\<rparr>))"

text \<open>\<open>client.query(sql).result()\<close>; \<open>run\<close> is what the warehouse does for the statement.\<close>

definition client_query :: "string \<Rightarrow> unit action \<Rightarrow> unit action" where
  "client_query sql run = external (Query sql) run"

text \<open>\<open>client.delete_table(table_id, not_found_ok=True)\<close>.\<close>

definition client_delete_table :: "string \<Rightarrow> unit action" where
  "client_delete_table table_id =
     external (DeleteTable table_id)
       (\<lambda>w. (Inr (), w\<lparr>tables := (tables w)(table_id := None)\<rparr>))"

text \<open>\<open>client.update_table(table, ["schema"])\<close>.\<close>

definition client_update_table :: "string \<Rightarrow> schema_field list \<Rightarrow> unit action" where
  "client_update_table table_id new_schema =
     external (UpdateTable table_id new_schema)
       (\<lambda>w. case tables w table_id of
               None \<Rightarrow> (Inl NotFound, w)
             | Some t \<Rightarrow> (Inr (), w\<lparr>tables := (tables w)(table_id \<mapsto> t\<lparr>schema := new_schema\<rparr>)\<rparr>))"

text \<open>\<open>os.remove(file_path)\<close>.\<close>

definition os_remove :: "string \<Rightarrow> unit action" where
  "os_remove file_path =
     external (RemoveFile file_path)
       (\<lambda>w. case files w file_path of
               None \<Rightarrow> (Inl FileNotFoundError, w)
             | Some f \<Rightarrow> (Inr (), w\<lparr>files := (files w)(file_path := None)\<rparr>))"


section \<open>The uploader\<close>

record uploader =
  project_id :: string
  dataset_id :: string
  download_path :: string

subsection \<open>Table utilities\<close>

definition table_exists :: "string \<Rightarrow> bool action" where
  "table_exists table_id =
     try_except
       (bind_action (client_get_table table_id) (\<lambda>t. return_action True))
       (\<lambda>e. return_action False)"

definition get_table :: "string \<Rightarrow> table action" where
  "get_table table_id = client_get_table table_id"

subsection \<open>The select list of the Staging Merge Loader\<close>

text \<open>\<open>tgt_cols\<close>, \<open>tgt_types\<close> (a dictionary: a later field of the same name wins) and
  \<open>stg_cols_set\<close>, as the loader reads them off the two schemas.\<close>

definition tgt_cols_of :: "schema_field list \<Rightarrow> string list" where
  "tgt_cols_of tgt_schema = map name tgt_schema"

definition tgt_types_of :: "schema_field list \<Rightarrow> (string \<rightharpoonup> string)" where
  "tgt_types_of tgt_schema = map_of (rev (map (\<lambda>f. (name f, field_type f)) tgt_schema))"

definition stg_cols_set_of :: "schema_field list \<Rightarrow> string set" where
  "stg_cols_set_of stg_schema = set (map name stg_schema)"

definition null_expr :: "string \<Rightarrow> string \<Rightarrow> string" where
  "null_expr col tgt_type = ''CAST(NULL AS '' @ cast_target tgt_type @ '') AS '' @ col"

text \<open>The loop over \<open>tgt_cols\<close>; \<open>tgt_types[col]\<close> raises \<open>KeyError\<close> on a missing key.\<close>

fun select_loop ::
  "(string \<rightharpoonup> string) \<Rightarrow> string set \<Rightarrow> string list \<Rightarrow> string list \<Rightarrow> error + string list"
where
  "select_loop tgt_types stg_cols_set [] select_exprs = Inr select_exprs"
| "select_loop tgt_types stg_cols_set (col # cols) select_exprs =
     (case tgt_types col of
        None \<Rightarrow> Inl (KeyError col)
      | Some tgt_type \<Rightarrow>
          if col \<in> stg_cols_set
          then select_loop tgt_types stg_cols_set cols
                 (select_exprs @ [safe_cast_expr ''stg'' col tgt_type])
          else select_loop tgt_types stg_cols_set cols
                 (select_exprs @ [null_expr col tgt_type]))"

definition build_select_exprs :: "schema_field list \<Rightarrow> schema_field list \<Rightarrow> error + string list" where
  "build_select_exprs tgt_schema stg_schema =
     select_loop (tgt_types_of tgt_schema) (stg_cols_set_of stg_schema) (tgt_cols_of tgt_schema) []"

text \<open>The text of the INSERT statement, line for line.\<close>

definition insert_sql :: "string \<Rightarrow> string \<Rightarrow> string list \<Rightarrow> string list \<Rightarrow> string" where
  "insert_sql target_table_id staging_table_id tgt_cols select_exprs =
     ''\<newline>        INSERT INTO `'' @ target_table_id @ ''` ('' @ join '', '' tgt_cols @ '')''
     @ ''\<newline>        SELECT''
     @ ''\<newline>            '' @ join '',\<newline>            '' select_exprs
     @ ''\<newline>        FROM `'' @ staging_table_id @ ''` AS stg''
     @ ''\<newline>        ''"

text \<open>
  What the warehouse does for that statement: one new destination row per staging row,
  holding for each destination column the staging value converted to the column's cast
  target, or NULL for a column the staging table lacks or a value that does not convert.
  A conversion to STRING keeps the text.
\<close>

definition cast_value ::
  "(string \<Rightarrow> string \<Rightarrow> string option) \<Rightarrow> string \<Rightarrow> string option \<Rightarrow> string option" where
  "cast_value conv tgt v =
     (if tgt = ''STRING'' then v else (case v of None \<Rightarrow> None | Some x \<Rightarrow> conv tgt x))"

definition insert_row ::
  "(string \<Rightarrow> string \<Rightarrow> string option) \<Rightarrow> (string \<rightharpoonup> string) \<Rightarrow> string set \<Rightarrow> row \<Rightarrow> row" where
  "insert_row conv tgt_types stg_cols_set r =
     (\<lambda>col. case tgt_types col of
               None \<Rightarrow> None
             | Some tgt_type \<Rightarrow>
                 if col \<in> stg_cols_set then cast_value conv (cast_target tgt_type) (r col)
                 else None)"

definition run_insert ::
  "string \<Rightarrow> string \<Rightarrow> (string \<rightharpoonup> string) \<Rightarrow> string set \<Rightarrow> unit action" where
  "run_insert target_table_id staging_table_id tgt_types stg_cols_set w =
     (case tables w target_table_id of
        None \<Rightarrow> (Inl NotFound, w)
      | Some t \<Rightarrow>
          (case tables w staging_table_id of
             None \<Rightarrow> (Inl NotFound, w)
           | Some s \<Rightarrow>
               (Inr (),
                w\<lparr>tables := (tables w)(target_table_id \<mapsto>
                     t\<lparr>rows := rows t
                        @ map (insert_row (convert w) tgt_types stg_cols_set) (rows s)\<rparr>)\<rparr>)))"

subsection \<open>Upload strategies\<close>

definition staging_table_id_of :: "string \<Rightarrow> string \<Rightarrow> string" where
  "staging_table_id_of target_table_id stamp = target_table_id @ ''__stg_'' @ stamp"

definition append_via_staging_with_casts :: "string \<Rightarrow> string \<Rightarrow> unit action" where
  "append_via_staging_with_casts file_path target_table_id w =
     (let staging_table_id = staging_table_id_of target_table_id (now w) in
      bind_action (logger (LoadingStaging staging_table_id)) (\<lambda>u.
      bind_action (open_file file_path) (\<lambda>source_file.
      bind_action (client_load_table_from_file source_file staging_table_id) (\<lambda>u.
      bind_action (get_table target_table_id) (\<lambda>tgt_table.
      bind_action (get_table staging_table_id) (\<lambda>stg_table.
      (case build_select_exprs (schema tgt_table) (schema stg_table) of
         Inl e \<Rightarrow> raise e
       | Inr select_exprs \<Rightarrow>
           bind_action (logger Inserting) (\<lambda>u.
           bind_action
             (client_query
                (insert_sql target_table_id staging_table_id
                   (tgt_cols_of (schema tgt_table)) select_exprs)
                (run_insert target_table_id staging_table_id
                   (tgt_types_of (schema tgt_table)) (stg_cols_set_of (schema stg_table))))
             (\<lambda>u.
           bind_action (client_delete_table staging_table_id) (\<lambda>u.
           logger (StagingDropped staging_table_id)))))))))) w)"

subsection \<open>The ingestion marker\<close>

definition has_ingestion_date :: "schema_field list \<Rightarrow> bool" where
  "has_ingestion_date sch = list_ex (\<lambda>f. name f = ''Ingestion_date'') sch"

definition ensure_ingestion_date_column :: "string \<Rightarrow> unit action" where
  "ensure_ingestion_date_column table_id =
     bind_action (get_table table_id) (\<lambda>t.
       if has_ingestion_date (schema t) then return_action ()
       else
         bind_action
           (client_update_table table_id
              (schema t @ [\<lparr>name = ''Ingestion_date'', field_type = ''DATE''\<rparr>]))
           (\<lambda>u. logger (AddedColumn table_id)))"

text \<open>The text of the UPDATE statement; \<open>date_value\<close> is the ISO text of the date.\<close>

definition update_sql :: "string \<Rightarrow> string \<Rightarrow> string" where
  "update_sql table_id date_value =
     ''\<newline>        UPDATE `'' @ table_id @ ''`''
     @ ''\<newline>        SET Ingestion_date = DATE('' @ [CHR 0x27] @ date_value @ [CHR 0x27] @ '')''
     @ ''\<newline>        WHERE Ingestion_date IS NULL''
     @ ''\<newline>        ''"

text \<open>
  The warehouse reads the statement it is sent. The loader writes its UPDATE in a small
  fragment of the warehouse's SQL: a table between backquotes, one column set to a date
  literal, and a condition that is \<open>TRUE\<close> or tests a column for NULL, with white space
  between the words.
\<close>

datatype condition = IsNull string | Always

record update_statement =
  upd_table :: string
  upd_column :: string
  upd_date :: string
  upd_where :: condition

definition is_space :: "char \<Rightarrow> bool" where
  "is_space c \<longleftrightarrow> c = CHR '' '' \<or> c = CHR 0x0A"

definition is_name_char :: "char \<Rightarrow> bool" where
  "is_name_char c \<longleftrightarrow> c \<in> set (ascii_lowercase @ ascii_uppercase @ ''0123456789_'')"

text \<open>White space, then the word \<open>k\<close>; the result is the text after it.\<close>

definition keyword :: "string \<Rightarrow> string \<Rightarrow> string option" where
  "keyword k s =
     (let s1 = dropWhile is_space s in
      if take (length k) s1 = k then Some (drop (length k) s1) else None)"

text \<open>White space, then a column name.\<close>

definition column_name :: "string \<Rightarrow> (string \<times> string) option" where
  "column_name s =
     (let s1 = dropWhile is_space s;
          c = takeWhile is_name_char s1 in
      if c = [] then None else Some (c, dropWhile is_name_char s1))"

text \<open>The text up to the closing delimiter \<open>q\<close>, and the text after the delimiter.\<close>

definition up_to :: "char \<Rightarrow> string \<Rightarrow> (string \<times> string) option" where
  "up_to q s =
     (let rest = dropWhile (\<lambda>c. c \<noteq> q) s in
      if rest = [] then None else Some (takeWhile (\<lambda>c. c \<noteq> q) s, tl rest))"

definition where_condition :: "string \<Rightarrow> (condition \<times> string) option" where
  "where_condition s =
     (case keyword ''TRUE'' s of
        Some s1 \<Rightarrow> Some (Always, s1)
      | None \<Rightarrow>
          Option.bind (column_name s) (\<lambda>(c, s1).
          Option.bind (keyword ''IS'' s1) (\<lambda>s2.
          Option.bind (keyword ''NULL'' s2) (\<lambda>s3. Some (IsNull c, s3)))))"

definition parse_update :: "string \<Rightarrow> update_statement option" where
  "parse_update sql =
     Option.bind (keyword ''UPDATE'' sql) (\<lambda>s1.
     Option.bind (keyword ''`'' s1) (\<lambda>s2.
     Option.bind (up_to (CHR 0x60) s2) (\<lambda>(tbl, s3).
     Option.bind (keyword ''SET'' s3) (\<lambda>s4.
     Option.bind (column_name s4) (\<lambda>(col, s5).
     Option.bind (keyword ''='' s5) (\<lambda>s6.
     Option.bind (keyword (''DATE('' @ [CHR 0x27]) s6) (\<lambda>s7.
     Option.bind (up_to (CHR 0x27) s7) (\<lambda>(d, s8).
     Option.bind (keyword '')'' s8) (\<lambda>s9.
     Option.bind (keyword ''WHERE'' s9) (\<lambda>s10.
     Option.bind (where_condition s10) (\<lambda>(cond, s11).
       if dropWhile is_space s11 = []
       then Some \<lparr>upd_table = tbl, upd_column = col, upd_date = d, upd_where = cond\<rparr>
       else None)))))))))))"

text \<open>
  What the warehouse does for an UPDATE: the table and the columns the statement names
  must be there; then every row of the table for which the condition holds gets the
  date in the column, and no other row changes.
\<close>

definition holds :: "condition \<Rightarrow> row \<Rightarrow> bool" where
  "holds cond r = (case cond of IsNull c \<Rightarrow> r c = None | Always \<Rightarrow> True)"

definition columns_of :: "update_statement \<Rightarrow> string list" where
  "columns_of st = upd_column st # (case upd_where st of IsNull c \<Rightarrow> [c] | Always \<Rightarrow> [])"

definition update_row :: "update_statement \<Rightarrow> row \<Rightarrow> row" where
  "update_row st r = (if holds (upd_where st) r then r(upd_column st \<mapsto> upd_date st) else r)"

definition exec_update :: "update_statement \<Rightarrow> unit action" where
  "exec_update st w =
     (case tables w (upd_table st) of
        None \<Rightarrow> (Inl NotFound, w)
      | Some t \<Rightarrow>
          if \<not> list_all (\<lambda>c. c \<in> set (map name (schema t))) (columns_of st)
          then (Inl (OtherError ''Unrecognized name''), w)
          else (Inr (),
                w\<lparr>tables := (tables w)(upd_table st \<mapsto>
                     t\<lparr>rows := map (update_row st) (rows t)\<rparr>)\<rparr>))"

definition run_update :: "string \<Rightarrow> unit action" where
  "run_update sql w =
     (case parse_update sql of
        None \<Rightarrow> (Inl (OtherError ''Syntax error''), w)
      | Some st \<Rightarrow> exec_update st w)"

definition set_ingestion_date_if_exists :: "string \<Rightarrow> string \<Rightarrow> unit action" where
  "set_ingestion_date_if_exists table_id date_value =
     bind_action (get_table table_id) (\<lambda>t.
       if \<not> has_ingestion_date (schema t) then return_action ()
       else
         (let query = update_sql table_id date_value in
          bind_action (client_query query (run_update query))
            (\<lambda>u. logger (MarkerSet table_id))))"

subsection \<open>New tables and the choice of strategy\<close>

definition create_table_and_load :: "string \<Rightarrow> string \<Rightarrow> unit action" where
  "create_table_and_load file_path table_id =
     bind_action (logger (CreatingTable table_id)) (\<lambda>u.
     bind_action (open_file file_path) (\<lambda>source_file.
     bind_action (client_load_table_from_file source_file table_id) (\<lambda>u.
     bind_action (logger (TableCreated table_id)) (\<lambda>u.
     ensure_ingestion_date_column table_id))))"

definition upload_csv :: "string \<Rightarrow> string \<Rightarrow> unit action" where
  "upload_csv file_path table_id w =
     (let ingestion_date = today w in
      bind_action (logger (Uploading file_path table_id)) (\<lambda>u.
      bind_action (table_exists table_id) (\<lambda>ex.
        if ex
        then bind_action (append_via_staging_with_casts file_path table_id)
               (\<lambda>u. set_ingestion_date_if_exists table_id ingestion_date)
        else bind_action (create_table_and_load file_path table_id)
               (\<lambda>u. set_ingestion_date_if_exists table_id ingestion_date))) w)"

subsection \<open>The orchestrator\<close>

definition considered :: "string \<Rightarrow> bool" where
  "considered file_name \<longleftrightarrow> endswith (lower file_name) ''.csv''"

definition table_id_of :: "uploader \<Rightarrow> string \<Rightarrow> string" where
  "table_id_of self file_name =
     (let table_name = lower (fst (splitext file_name)) in
      project_id self @ ''.'' @ dataset_id self @ ''.'' @ table_name)"

definition file_path_of :: "uploader \<Rightarrow> string \<Rightarrow> string" where
  "file_path_of self file_name = path_join (download_path self) file_name"


text \<open>The body of the loop for a file that is not skipped.\<close>

definition process_file :: "uploader \<Rightarrow> string \<Rightarrow> unit action" where
  "process_file self file_name =
     (let table_id = table_id_of self file_name;
          file_path = file_path_of self file_name in
      try_finally
        (try_except
           (bind_action (upload_csv file_path table_id) (\<lambda>u. logger (Finished file_name)))
           (\<lambda>e. logger (Failed file_name e)))
        (try_except
           (bind_action (os_remove file_path) (\<lambda>u. logger (Deleted file_name)))
           (\<lambda>e. logger (CouldNotDelete file_name e))))"

text \<open>The loop over the names \<open>os.listdir(self.download_path)\<close> returned.\<close>

fun upload_loop :: "uploader \<Rightarrow> string list \<Rightarrow> unit action" where
  "upload_loop self [] = return_action ()"
| "upload_loop self (file_name # rest) =
     (if \<not> considered file_name then upload_loop self rest
      else bind_action (process_file self file_name) (\<lambda>u. upload_loop self rest))"

definition upload_all_csvs :: "uploader \<Rightarrow> string list \<Rightarrow> unit action" where
  "upload_all_csvs self listing =
     bind_action (logger (Scanning (download_path self))) (\<lambda>u. upload_loop self listing)"

subsection \<open>Reading a trace\<close>

text \<open>The uploads begun and the file removals attempted, in the order of the trace.\<close>

fun uploads_begun :: "event list \<Rightarrow> (string \<times> string) list" where
  "uploads_begun [] = []"
| "uploads_begun (Log (Uploading file_path table_id) # evs) =
     (file_path, table_id) # uploads_begun evs"
| "uploads_begun (ev # evs) = uploads_begun evs"

fun removals_attempted :: "event list \<Rightarrow> string list" where
  "removals_attempted [] = []"
| "removals_attempted (RemoveFile file_path # evs) = file_path # removals_attempted evs"
| "removals_attempted (ev # evs) = removals_attempted evs"

text \<open>What a piece of the program adds to the trace.\<close>

definition emitted :: "'a action \<Rightarrow> world \<Rightarrow> event list" where
  "emitted m w = drop (length (trace w)) (trace (snd (m w)))"

text \<open>
  \<open>steps R m\<close>: from every world, running \<open>m\<close> ends (returning or raising) in a world
  related to it by \<open>R\<close>.
\<close>

definition steps :: "(world \<Rightarrow> world \<Rightarrow> bool) \<Rightarrow> 'a action \<Rightarrow> bool" where
  "steps R m \<longleftrightarrow> (\<forall>w. R w (snd (m w)))"

text \<open>The trace grew by events that begin the uploads \<open>us\<close> and try the removals \<open>rs\<close>.\<close>

definition emits :: "(string \<times> string) list \<Rightarrow> string list \<Rightarrow> world \<Rightarrow> world \<Rightarrow> bool" where
  "emits us rs w w' \<longleftrightarrow>
     (\<exists>evs. trace w' = trace w @ evs \<and> uploads_begun evs = us \<and> removals_attempted evs = rs)"

text \<open>An operation that changes the schema of table \<open>table_id\<close>, or replaces or drops it.\<close>

fun schema_altering :: "string \<Rightarrow> event \<Rightarrow> bool" where
  "schema_altering table_id (UpdateTable t sch) = (t = table_id)"
| "schema_altering table_id (LoadTable t) = (t = table_id)"
| "schema_altering table_id (DeleteTable t) = (t = table_id)"
| "schema_altering table_id ev = False"

text \<open>The schema of a table of the warehouse, if the table is there.\<close>

definition schema_of :: "world \<Rightarrow> string \<Rightarrow> schema_field list option" where
  "schema_of w table_id = map_option schema (tables w table_id)"

text \<open>
  The schema of table \<open>table_id\<close> is the same in both worlds, the clock too, and the trace
  grew by events none of which alters that schema.
\<close>

definition schema_kept :: "string \<Rightarrow> world \<Rightarrow> world \<Rightarrow> bool" where
  "schema_kept table_id w w' \<longleftrightarrow>
     schema_of w' table_id = schema_of w table_id \<and> now w' = now w
     \<and> (\<exists>evs. trace w' = trace w @ evs \<and> list_all (\<lambda>ev. \<not> schema_altering table_id ev) evs)"

subsection \<open>A small world to run the program in\<close>

text \<open>
  A warehouse with two tables, one with the marker column and one without it (its
  \<open>ingestion_date\<close> is spelled in lower case), and a directory with one CSV file.
\<close>

definition orders_table :: table where
  "orders_table =
     \<lparr>schema = [\<lparr>name = ''id'', field_type = ''INT64''\<rparr>,
                \<lparr>name = ''total'', field_type = ''NUMERIC''\<rparr>,
                \<lparr>name = ''Ingestion_date'', field_type = ''DATE''\<rparr>],
      rows = [[''id'' \<mapsto> ''1'', ''total'' \<mapsto> ''10'', ''Ingestion_date'' \<mapsto> ''2024-12-31''],
              [''id'' \<mapsto> ''2'', ''total'' \<mapsto> ''20'']]\<rparr>"

definition legacy_table :: table where
  "legacy_table =
     \<lparr>schema = [\<lparr>name = ''id'', field_type = ''INT64''\<rparr>,
                \<lparr>name = ''ingestion_date'', field_type = ''DATE''\<rparr>],
      rows = [[''id'' \<mapsto> ''1'']]\<rparr>"

definition orders_csv :: table where
  "orders_csv =
     \<lparr>schema = [\<lparr>name = ''id'', field_type = ''INT64''\<rparr>,
                \<lparr>name = ''note'', field_type = ''STRING''\<rparr>],
      rows = [[''id'' \<mapsto> ''3'', ''note'' \<mapsto> ''late'']]\<rparr>"

definition example_world :: "error option list \<Rightarrow> world" where
  "example_world fs =
     \<lparr>tables = [''p.d.orders'' \<mapsto> orders_table, ''p.d.legacy'' \<mapsto> legacy_table],
      files = [''/data/orders.csv'' \<mapsto> orders_csv],
      faults = fs,
      trace = [],
      today = ''2025-01-01'',
      now = ''20250101093000'',
      convert = (\<lambda>tgt v. Some v)\<rparr>"


section \<open>Facts about text\<close>

lemmas case_tables = upper_char_def lower_char_def ascii_lowercase_def ascii_uppercase_def
  latin1_lowercase_def latin1_uppercase_def

lemma upper_char_idem: "upper_char (upper_char c) = upper_char c"
  by (simp add: case_tables)


lemma upper_idem: "upper (upper s) = upper s"
  by (simp add: upper_def upper_char_idem)


lemma length_upper: "length (upper s) = length s"
  by (simp add: upper_def)



section \<open>Facts about the Type-Cast Resolver\<close>

lemma cast_target_cases:
  "cast_target t \<in> {''STRING'', ''BOOL'', ''INT64'', ''FLOAT64'', ''NUMERIC'', ''BIGNUMERIC'',
      ''DATE'', ''DATETIME'', ''TIMESTAMP'', ''TIME'', ''GEOGRAPHY''}"
  by (simp add: cast_target_def CAST_TARGETS_def)

lemma cast_target_unrecognized: "\<not> recognized t \<Longrightarrow> cast_target t = ''STRING''"
proof -
  assume "\<not> recognized t"
  then have "map_of CAST_TARGETS (upper t) = None"
    unfolding recognized_def by (simp add: map_of_eq_None_iff)
  then show ?thesis by (simp add: cast_target_def)
qed

lemma cast_target_STRING_iff:
  "cast_target t = ''STRING'' \<longleftrightarrow> upper t = ''STRING'' \<or> \<not> recognized t"
  by (simp add: cast_target_def recognized_def CAST_TARGETS_def)

lemma cast_target_upper: "cast_target (upper t) = cast_target t"
  by (simp add: cast_target_def upper_idem)


section \<open>Claims about the Type-Cast Resolver\<close>

text \<open>
  C2. For every destination field type tag, the resolver's expression is a hard
  \<open>CAST ... AS STRING\<close> when the tag resolves to STRING, which happens exactly for the tag
  STRING itself (in any letter case) and for unrecognized tags; it is a \<open>SAFE_CAST\<close> to the
  resolved target for every other recognized tag; and for an unrecognized tag the
  expression is the one produced for STRING. The recognized tags are the fourteen keys
  of the table: the eleven tags of the specification's enumeration, each resolved to
  itself, and BOOLEAN, INTEGER and FLOAT, resolved to BOOL, INT64 and FLOAT64.
\<close>

theorem safe_cast_expr_shape:
  "(recognized t \<longleftrightarrow>
      upper t \<in> {''STRING'', ''BOOL'', ''BOOLEAN'', ''INT64'', ''INTEGER'', ''FLOAT64'', ''FLOAT'',
         ''NUMERIC'', ''BIGNUMERIC'', ''DATE'', ''DATETIME'', ''TIMESTAMP'', ''TIME'',
         ''GEOGRAPHY''})
   \<and> (cast_target t = ''STRING'' \<longleftrightarrow> upper t = ''STRING'' \<or> \<not> recognized t)
   \<and> (upper t = ''STRING'' \<or> \<not> recognized t \<longrightarrow>
        safe_cast_expr a c t = ''CAST('' @ a @ ''.'' @ c @ '' AS STRING) AS '' @ c)
   \<and> (upper t \<in> {''BOOL'', ''BOOLEAN''} \<longrightarrow>
        safe_cast_expr a c t = ''SAFE_CAST('' @ a @ ''.'' @ c @ '' AS BOOL) AS '' @ c)
   \<and> (upper t \<in> {''INT64'', ''INTEGER''} \<longrightarrow>
        safe_cast_expr a c t = ''SAFE_CAST('' @ a @ ''.'' @ c @ '' AS INT64) AS '' @ c)
   \<and> (upper t \<in> {''FLOAT64'', ''FLOAT''} \<longrightarrow>
        safe_cast_expr a c t = ''SAFE_CAST('' @ a @ ''.'' @ c @ '' AS FLOAT64) AS '' @ c)
   \<and> (upper t \<in> {''NUMERIC'', ''BIGNUMERIC'', ''DATE'', ''DATETIME'', ''TIMESTAMP'', ''TIME'',
                  ''GEOGRAPHY''} \<longrightarrow>
        safe_cast_expr a c t = ''SAFE_CAST('' @ a @ ''.'' @ c @ '' AS '' @ upper t @ '') AS '' @ c)
   \<and> (\<forall>tag \<in> set spec_type_tags.
        recognized tag
        \<and> (tag \<noteq> ''STRING'' \<longrightarrow>
             safe_cast_expr a c tag = ''SAFE_CAST('' @ a @ ''.'' @ c @ '' AS '' @ tag @ '') AS '' @ c))
   \<and> (\<not> recognized t \<longrightarrow> safe_cast_expr a c t = safe_cast_expr a c ''STRING'')"
proof (intro conjI impI)
  show "recognized t \<longleftrightarrow>
      upper t \<in> {''STRING'', ''BOOL'', ''BOOLEAN'', ''INT64'', ''INTEGER'', ''FLOAT64'', ''FLOAT'',
         ''NUMERIC'', ''BIGNUMERIC'', ''DATE'', ''DATETIME'', ''TIMESTAMP'', ''TIME'',
         ''GEOGRAPHY''}"
    by (simp add: recognized_def CAST_TARGETS_def)
next
  show "cast_target t = ''STRING'' \<longleftrightarrow> upper t = ''STRING'' \<or> \<not> recognized t"
    by (rule cast_target_STRING_iff)
next
  assume "upper t = ''STRING'' \<or> \<not> recognized t"
  then have "cast_target t = ''STRING''"
    by (simp only: cast_target_STRING_iff)
  then show "safe_cast_expr a c t = ''CAST('' @ a @ ''.'' @ c @ '' AS STRING) AS '' @ c"
    by (simp add: safe_cast_expr_def)
next
  assume "upper t \<in> {''BOOL'', ''BOOLEAN''}"
  then have "cast_target t = ''BOOL''"
    by (auto simp: cast_target_def CAST_TARGETS_def)
  then show "safe_cast_expr a c t = ''SAFE_CAST('' @ a @ ''.'' @ c @ '' AS BOOL) AS '' @ c"
    by (simp add: safe_cast_expr_def)
next
  assume "upper t \<in> {''INT64'', ''INTEGER''}"
  then have "cast_target t = ''INT64''"
    by (auto simp: cast_target_def CAST_TARGETS_def)
  then show "safe_cast_expr a c t = ''SAFE_CAST('' @ a @ ''.'' @ c @ '' AS INT64) AS '' @ c"
    by (simp add: safe_cast_expr_def)
next
  assume "upper t \<in> {''FLOAT64'', ''FLOAT''}"
  then have "cast_target t = ''FLOAT64''"
    by (auto simp: cast_target_def CAST_TARGETS_def)
  then show "safe_cast_expr a c t = ''SAFE_CAST('' @ a @ ''.'' @ c @ '' AS FLOAT64) AS '' @ c"
    by (simp add: safe_cast_expr_def)
next
  assume "upper t \<in> {''NUMERIC'', ''BIGNUMERIC'', ''DATE'', ''DATETIME'', ''TIMESTAMP'', ''TIME'',
                  ''GEOGRAPHY''}"
  then have "cast_target t = upper t \<and> upper t \<noteq> ''STRING''"
    by (auto simp: cast_target_def CAST_TARGETS_def)
  then show "safe_cast_expr a c t =
      ''SAFE_CAST('' @ a @ ''.'' @ c @ '' AS '' @ upper t @ '') AS '' @ c"
    by (simp add: safe_cast_expr_def)
next
  show "\<forall>tag \<in> set spec_type_tags.
        recognized tag
        \<and> (tag \<noteq> ''STRING'' \<longrightarrow>
             safe_cast_expr a c tag = ''SAFE_CAST('' @ a @ ''.'' @ c @ '' AS '' @ tag @ '') AS '' @ c)"
    by (simp add: spec_type_tags_def recognized_def safe_cast_expr_def cast_target_def
        CAST_TARGETS_def upper_def case_tables)
next
  assume "\<not> recognized t"
  then have "cast_target t = ''STRING''"
    by (rule cast_target_unrecognized)
  moreover have "cast_target ''STRING'' = ''STRING''"
    by (simp add: cast_target_def CAST_TARGETS_def upper_def case_tables)
  ultimately show "safe_cast_expr a c t = safe_cast_expr a c ''STRING''"
    by (simp add: safe_cast_expr_def)
qed

theorem safe_cast_expr_shape_witness:
  "safe_cast_expr ''stg'' ''city'' ''string'' = ''CAST(stg.city AS STRING) AS city''
   \<and> safe_cast_expr ''stg'' ''done'' ''Boolean'' = ''SAFE_CAST(stg.done AS BOOL) AS done''
   \<and> safe_cast_expr ''stg'' ''at'' ''time'' = ''SAFE_CAST(stg.at AS TIME) AS at''
   \<and> ''DATETIME'' \<in> set spec_type_tags
   \<and> safe_cast_expr ''stg'' ''seen'' ''DATETIME'' = ''SAFE_CAST(stg.seen AS DATETIME) AS seen''
   \<and> ''GEOGRAPHY'' \<in> set spec_type_tags
   \<and> safe_cast_expr ''stg'' ''area'' ''GEOGRAPHY'' = ''SAFE_CAST(stg.area AS GEOGRAPHY) AS area''
   \<and> \<not> recognized ''JSON''
   \<and> safe_cast_expr ''stg'' ''doc'' ''JSON'' = safe_cast_expr ''stg'' ''doc'' ''STRING''
   \<and> safe_cast_expr ''stg'' ''doc'' ''JSON'' = ''CAST(stg.doc AS STRING) AS doc''"
proof -
  have up: "upper ''string'' = ''STRING''" "upper ''Boolean'' = ''BOOLEAN''"
    "upper ''time'' = ''TIME''" "upper ''JSON'' = ''JSON''"
    by (simp_all add: upper_def case_tables)
  have m: "''DATETIME'' \<in> set spec_type_tags" "''GEOGRAPHY'' \<in> set spec_type_tags"
    by (simp_all add: spec_type_tags_def)
  note T1 = safe_cast_expr_shape [of "''string''" "''stg''" "''city''"]
  note T2 = safe_cast_expr_shape [of "''Boolean''" "''stg''" "''done''"]
  note T3 = safe_cast_expr_shape [of "''time''" "''stg''" "''at''"]
  note T4 = safe_cast_expr_shape [of "''JSON''" "''stg''" "''seen''"]
  note T5 = safe_cast_expr_shape [of "''JSON''" "''stg''" "''area''"]
  note T6 = safe_cast_expr_shape [of "''JSON''" "''stg''" "''doc''"]
  from T1 up have 1: "safe_cast_expr ''stg'' ''city'' ''string'' = ''CAST(stg.city AS STRING) AS city''"
    by simp
  from T2 up have 2: "safe_cast_expr ''stg'' ''done'' ''Boolean'' = ''SAFE_CAST(stg.done AS BOOL) AS done''"
    by simp
  from T3 up have 3: "safe_cast_expr ''stg'' ''at'' ''time'' = ''SAFE_CAST(stg.at AS TIME) AS at''"
    by simp
  from T4 have "\<forall>tag \<in> set spec_type_tags.
        recognized tag
        \<and> (tag \<noteq> ''STRING'' \<longrightarrow>
             safe_cast_expr ''stg'' ''seen'' tag
               = ''SAFE_CAST('' @ ''stg'' @ ''.'' @ ''seen'' @ '' AS '' @ tag @ '') AS '' @ ''seen'')"
    by blast
  from bspec [OF this m(1)]
  have 4: "safe_cast_expr ''stg'' ''seen'' ''DATETIME'' = ''SAFE_CAST(stg.seen AS DATETIME) AS seen''"
    by simp
  from T5 have "\<forall>tag \<in> set spec_type_tags.
        recognized tag
        \<and> (tag \<noteq> ''STRING'' \<longrightarrow>
             safe_cast_expr ''stg'' ''area'' tag
               = ''SAFE_CAST('' @ ''stg'' @ ''.'' @ ''area'' @ '' AS '' @ tag @ '') AS '' @ ''area'')"
    by blast
  from bspec [OF this m(2)]
  have 5: "safe_cast_expr ''stg'' ''area'' ''GEOGRAPHY'' = ''SAFE_CAST(stg.area AS GEOGRAPHY) AS area''"
    by simp
  from T6 up have 6: "\<not> recognized ''JSON''"
    by simp
  from T6 6 have 7: "safe_cast_expr ''stg'' ''doc'' ''JSON'' = safe_cast_expr ''stg'' ''doc'' ''STRING''"
    by blast
  from T6 6 have "safe_cast_expr ''stg'' ''doc'' ''JSON''
      = ''CAST('' @ ''stg'' @ ''.'' @ ''doc'' @ '' AS STRING) AS '' @ ''doc''"
    by blast
  then have 8: "safe_cast_expr ''stg'' ''doc'' ''JSON'' = ''CAST(stg.doc AS STRING) AS doc''"
    by simp
  from 1 2 3 m 4 5 6 7 8 show ?thesis by (intro conjI)
qed

text \<open>
  C10. The resolver matches type tags without regard to letter case: a tag and its
  uppercased form, and any two tags that agree once uppercased (such as \<open>int64\<close> and
  \<open>INT64\<close>), give the same expression for every staging alias and column name; and the
  legacy tags BOOLEAN, INTEGER and FLOAT give the expressions of BOOL, INT64 and FLOAT64.
\<close>

theorem safe_cast_expr_case_insensitive:
  "safe_cast_expr a c (upper t) = safe_cast_expr a c t
   \<and> (upper t1 = upper t2 \<longrightarrow> safe_cast_expr a c t1 = safe_cast_expr a c t2)
   \<and> safe_cast_expr a c ''int64'' = safe_cast_expr a c ''INT64''
   \<and> safe_cast_expr a c ''BOOLEAN'' = safe_cast_expr a c ''BOOL''
   \<and> safe_cast_expr a c ''INTEGER'' = safe_cast_expr a c ''INT64''
   \<and> safe_cast_expr a c ''FLOAT'' = safe_cast_expr a c ''FLOAT64''"
proof (intro conjI impI)
  show "safe_cast_expr a c (upper t) = safe_cast_expr a c t"
    by (simp add: safe_cast_expr_def cast_target_upper)
next
  assume "upper t1 = upper t2"
  then have "cast_target t1 = cast_target t2"
    by (simp add: cast_target_def)
  then show "safe_cast_expr a c t1 = safe_cast_expr a c t2"
    by (simp add: safe_cast_expr_def)
next
  have "cast_target ''int64'' = cast_target ''INT64''"
    by (simp add: cast_target_def CAST_TARGETS_def upper_def case_tables)
  then show "safe_cast_expr a c ''int64'' = safe_cast_expr a c ''INT64''"
    by (simp add: safe_cast_expr_def)
next
  have "cast_target ''BOOLEAN'' = cast_target ''BOOL''"
    by (simp add: cast_target_def CAST_TARGETS_def upper_def case_tables)
  then show "safe_cast_expr a c ''BOOLEAN'' = safe_cast_expr a c ''BOOL''"
    by (simp add: safe_cast_expr_def)
next
  have "cast_target ''INTEGER'' = cast_target ''INT64''"
    by (simp add: cast_target_def CAST_TARGETS_def upper_def case_tables)
  then show "safe_cast_expr a c ''INTEGER'' = safe_cast_expr a c ''INT64''"
    by (simp add: safe_cast_expr_def)
next
  have "cast_target ''FLOAT'' = cast_target ''FLOAT64''"
    by (simp add: cast_target_def CAST_TARGETS_def upper_def case_tables)
  then show "safe_cast_expr a c ''FLOAT'' = safe_cast_expr a c ''FLOAT64''"
    by (simp add: safe_cast_expr_def)
qed

theorem safe_cast_expr_case_insensitive_witness:
  "upper ''Float'' = upper ''fLOAT''
   \<and> safe_cast_expr ''stg'' ''price'' ''Float'' = safe_cast_expr ''stg'' ''price'' ''fLOAT''
   \<and> safe_cast_expr ''stg'' ''price'' ''Float'' = ''SAFE_CAST(stg.price AS FLOAT64) AS price''"
proof -
  have up: "upper ''Float'' = ''FLOAT''" "upper ''fLOAT'' = ''FLOAT''"
    by (simp_all add: upper_def case_tables)
  have v: "safe_cast_expr ''stg'' ''price'' ''Float'' = ''SAFE_CAST(stg.price AS FLOAT64) AS price''"
    by (simp add: safe_cast_expr_def cast_target_def CAST_TARGETS_def up)
  show ?thesis
    using safe_cast_expr_case_insensitive [of "''stg''" "''price''" "''Float''" "''Float''" "''fLOAT''"]
      up v
    by simp
qed


section \<open>Facts about the select list\<close>

lemma tgt_types_of_distinct:
  "distinct (map name sch) \<Longrightarrow> f \<in> set sch \<Longrightarrow> tgt_types_of sch (name f) = Some (field_type f)"
proof -
  assume d: "distinct (map name sch)" and m: "f \<in> set sch"
  let ?kv = "map (\<lambda>f. (name f, field_type f)) sch"
  have "map fst (rev ?kv) = rev (map name sch)"
    by (simp add: rev_map comp_def)
  with d have "distinct (map fst (rev ?kv))" by simp
  moreover from m have "(name f, field_type f) \<in> set (rev ?kv)" by force
  ultimately show ?thesis
    unfolding tgt_types_of_def by (rule map_of_is_SomeI)
qed

lemma tgt_types_of_defined:
  "c \<in> set (map name sch) \<Longrightarrow> tgt_types_of sch c \<noteq> None"
  unfolding tgt_types_of_def by (simp add: map_of_eq_None_iff image_image)

text \<open>The loop never meets a missing key, and appends one expression per column.\<close>

lemma select_loop_map:
  "\<forall>c \<in> set cols. tt c \<noteq> None \<Longrightarrow>
   select_loop tt S cols acc =
     Inr (acc @ map (\<lambda>c. if c \<in> S then safe_cast_expr ''stg'' c (the (tt c))
                         else null_expr c (the (tt c))) cols)"
  by (induction cols arbitrary: acc) auto

lemma build_select_exprs_map:
  "build_select_exprs tgt_schema stg_schema =
     Inr (map (\<lambda>c. if c \<in> stg_cols_set_of stg_schema
                    then safe_cast_expr ''stg'' c (the (tgt_types_of tgt_schema c))
                    else null_expr c (the (tgt_types_of tgt_schema c)))
            (map name tgt_schema))"
  unfolding build_select_exprs_def tgt_cols_of_def
  by (subst select_loop_map) (simp_all add: tgt_types_of_defined)

lemma endswith_append: "endswith (xs @ ys) ys"
  by (simp add: endswith_def)

lemma safe_cast_expr_alias: "s = '' AS '' @ c \<Longrightarrow> endswith (safe_cast_expr a c t) s"
proof -
  assume s: "s = '' AS '' @ c"
  have "\<exists>xs. safe_cast_expr a c t = xs @ ('' AS '' @ c)"
    by (simp add: safe_cast_expr_def Let_def)
  with s show ?thesis by (auto simp: endswith_append simp del: append.simps)
qed

lemma null_expr_alias: "s = '' AS '' @ c \<Longrightarrow> endswith (null_expr c t) s"
proof -
  assume s: "s = '' AS '' @ c"
  have "null_expr c t = (''CAST(NULL AS '' @ cast_target t @ '')'') @ ('' AS '' @ c)"
    by (simp add: null_expr_def)
  with s show ?thesis by (simp only: endswith_append)
qed

lemma cast_target_values:
  "cast_target ''INT64'' = ''INT64''" "cast_target ''STRING'' = ''STRING''"
  "cast_target ''TIMESTAMP'' = ''TIMESTAMP''" "cast_target ''DATE'' = ''DATE''"
  "cast_target ''NUMERIC'' = ''NUMERIC''"
  by (simp_all add: cast_target_def CAST_TARGETS_def upper_def case_tables)


section \<open>Facts about actions\<close>

lemmas action_defs = bind_action_def return_action_def raise_def try_except_def
  try_finally_def external_def logger_def

lemmas client_defs = client_get_table_def get_table_def open_file_def
  client_load_table_from_file_def client_query_def client_delete_table_def
  client_update_table_def os_remove_def

lemmas example_defs = example_world_def orders_table_def legacy_table_def orders_csv_def

section \<open>Claims about the Table Existence Oracle\<close>

text \<open>
  C5. For every table identity and every world, \<open>table_exists\<close> returns (it never raises):
  it returns true exactly when the metadata fetch returns a table, and false whenever the
  fetch raises, whatever the exception; it does nothing but that fetch.
\<close>

theorem table_exists_never_raises:
  "fst (table_exists table_id w) = Inr (\<exists>t. fst (client_get_table table_id w) = Inr t)
   \<and> (\<forall>e. fst (client_get_table table_id w) = Inl e \<longrightarrow>
          fst (table_exists table_id w) = Inr False)
   \<and> snd (table_exists table_id w) = snd (client_get_table table_id w)"
  by (cases "client_get_table table_id w"; cases "fst (client_get_table table_id w)")
     (auto simp: table_exists_def bind_action_def return_action_def try_except_def)

theorem table_exists_never_raises_witness:
  "fst (client_get_table ''p.d.orders'' (example_world [Some (OtherError ''403 Forbidden'')]))
     = Inl (OtherError ''403 Forbidden'')
   \<and> fst (table_exists ''p.d.orders'' (example_world [Some (OtherError ''403 Forbidden'')]))
     = Inr False"
  using table_exists_never_raises
    [of "''p.d.orders''" "example_world [Some (OtherError ''403 Forbidden'')]"]
  by (simp add: client_get_table_def external_def next_fault_def example_world_def)

section \<open>Facts about the UPDATE statement\<close>

lemma up_to_append: "q \<notin> set body \<Longrightarrow> up_to q (body @ q # rest) = Some (body, rest)"
  by (induction body) (auto simp: up_to_def Let_def)

text \<open>
  The statement of the setter is read as it is meant, when the table identity has no
  backquote and the date no quote in it.
\<close>

lemma parse_update_sql:
  assumes "CHR 0x60 \<notin> set table_id" and "CHR 0x27 \<notin> set d"
  shows "parse_update (update_sql table_id d) = Some \<lparr>upd_table = table_id, upd_column = ''Ingestion_date'', upd_date = d,
              upd_where = IsNull ''Ingestion_date''\<rparr>"
  using assms
  by (simp add: parse_update_def update_sql_def keyword_def column_name_def where_condition_def
      is_space_def is_name_char_def ascii_lowercase_def ascii_uppercase_def up_to_append Let_def)

lemma update_row_marker:
  "update_row \<lparr>upd_table = table_id, upd_column = ''Ingestion_date'', upd_date = d,
              upd_where = IsNull ''Ingestion_date''\<rparr>
     = (\<lambda>r. if r ''Ingestion_date'' = None then r(''Ingestion_date'' \<mapsto> d) else r)"
  by (rule ext) (simp add: update_row_def holds_def)

lemma list_ex_name_iff: "list_ex (\<lambda>f. name f = c) sch \<longleftrightarrow> c \<in> set (map name sch)"
  by (induction sch) auto

lemma has_ingestion_date_iff:
  "has_ingestion_date sch \<longleftrightarrow> ''Ingestion_date'' \<in> set (map name sch)"
  unfolding has_ingestion_date_def by (rule list_ex_name_iff)

lemma run_update_sql:
  assumes "CHR 0x60 \<notin> set table_id" and "CHR 0x27 \<notin> set d"
  shows "run_update (update_sql table_id d) w =
     (case tables w table_id of
        None \<Rightarrow> (Inl NotFound, w)
      | Some t \<Rightarrow>
          if \<not> has_ingestion_date (schema t)
          then (Inl (OtherError ''Unrecognized name''), w)
          else (Inr (),
                w\<lparr>tables := (tables w)(table_id \<mapsto>
                     t\<lparr>rows := map (\<lambda>r. if r ''Ingestion_date'' = None then r(''Ingestion_date'' \<mapsto> d) else r) (rows t)\<rparr>)\<rparr>))"
  by (simp add: run_update_def parse_update_sql [OF assms] exec_update_def columns_of_def
      update_row_marker has_ingestion_date_iff split: option.splits)

section \<open>Facts about the Ingestion Marker Setter\<close>

lemma setter_query:
  assumes "Query q \<in> set (emitted (set_ingestion_date_if_exists table_id d) w)"
  shows "q = update_sql table_id d"
  using assms
  by (auto simp: emitted_def set_ingestion_date_if_exists_def action_defs client_defs
      run_update_def exec_update_def Let_def split: option.splits if_splits)

text \<open>What one call of the setter does to its table.\<close>

lemma setter_table:
  assumes "CHR 0x60 \<notin> set table_id" and "CHR 0x27 \<notin> set d"
    and "tables w table_id = Some t"
  shows "tables (snd (set_ingestion_date_if_exists table_id d w)) = tables w
       \<or> (has_ingestion_date (schema t)
          \<and> fst (set_ingestion_date_if_exists table_id d w) = Inr ()
          \<and> tables (snd (set_ingestion_date_if_exists table_id d w))
             = (tables w)(table_id \<mapsto> t\<lparr>rows := map (\<lambda>r. if r ''Ingestion_date'' = None then r(''Ingestion_date'' \<mapsto> d) else r) (rows t)\<rparr>))"
  using assms(3)
  by (auto simp: set_ingestion_date_if_exists_def action_defs client_defs
      run_update_sql [OF assms(1,2)] Let_def split: option.splits)

lemma setter_success:
  assumes "CHR 0x60 \<notin> set table_id" and "CHR 0x27 \<notin> set d"
    and "fst (set_ingestion_date_if_exists table_id d w) = Inr ()"
  shows "\<exists>t. tables w table_id = Some t \<and>
     tables (snd (set_ingestion_date_if_exists table_id d w)) =
       (if has_ingestion_date (schema t)
        then (tables w)(table_id \<mapsto> t\<lparr>rows := map (\<lambda>r. if r ''Ingestion_date'' = None then r(''Ingestion_date'' \<mapsto> d) else r) (rows t)\<rparr>)
        else tables w)
     \<and> (has_ingestion_date (schema t) \<longrightarrow>
          Query (update_sql table_id d) \<in> set (emitted (set_ingestion_date_if_exists table_id d) w))"
  using assms(3)
  by (auto simp: emitted_def set_ingestion_date_if_exists_def action_defs client_defs
      run_update_sql [OF assms(1,2)] Let_def split: option.splits if_splits)

lemma setter_settled:
  assumes "CHR 0x60 \<notin> set table_id" and "CHR 0x27 \<notin> set d"
    and "tables w table_id = Some t"
    and "has_ingestion_date (schema t) \<longrightarrow> (\<forall>r \<in> set (rows t). r ''Ingestion_date'' \<noteq> None)"
  shows "tables (snd (set_ingestion_date_if_exists table_id d w)) = tables w"
proof -
  from setter_table [OF assms(1,2,3)]
  show ?thesis
  proof
    assume "tables (snd (set_ingestion_date_if_exists table_id d w)) = tables w"
    then show ?thesis .
  next
    assume h: "has_ingestion_date (schema t)
          \<and> fst (set_ingestion_date_if_exists table_id d w) = Inr ()
          \<and> tables (snd (set_ingestion_date_if_exists table_id d w))
             = (tables w)(table_id \<mapsto> t\<lparr>rows := map (\<lambda>r. if r ''Ingestion_date'' = None then r(''Ingestion_date'' \<mapsto> d) else r) (rows t)\<rparr>)"
    with assms(4) have "\<forall>r \<in> set (rows t). r ''Ingestion_date'' \<noteq> None"
      by blast
    then have "map (\<lambda>r. if r ''Ingestion_date'' = None then r(''Ingestion_date'' \<mapsto> d) else r) (rows t) = rows t"
      by (intro map_idI) auto
    with h assms(3) show ?thesis
      by (simp add: map_upd_triv)
  qed
qed

section \<open>Claims about the Ingestion Marker Setter\<close>

text \<open>
  C8. For every table whose metadata the setter fetches and whose schema has no column
  named exactly \<open>Ingestion_date\<close>, the setter is a no-op: it returns without raising, it
  leaves the warehouse and the local files as they were, and the only call it makes is
  the metadata fetch, so no UPDATE is issued.
\<close>

theorem setter_noop_without_marker:
  assumes "fst (get_table table_id w) = Inr t"
    and "''Ingestion_date'' \<notin> set (map name (schema t))"
  shows "fst (set_ingestion_date_if_exists table_id date_value w) = Inr ()
    \<and> tables (snd (set_ingestion_date_if_exists table_id date_value w)) = tables w
    \<and> files (snd (set_ingestion_date_if_exists table_id date_value w)) = files w
    \<and> trace (snd (set_ingestion_date_if_exists table_id date_value w))
        = trace w @ [GetTable table_id]"
  using assms
  by (auto simp: set_ingestion_date_if_exists_def has_ingestion_date_iff action_defs client_defs
      Let_def split: option.splits)

theorem setter_noop_without_marker_witness:
  "fst (get_table ''p.d.legacy'' (example_world [])) = Inr legacy_table
   \<and> ''Ingestion_date'' \<notin> set (map name (schema legacy_table))
   \<and> fst (set_ingestion_date_if_exists ''p.d.legacy'' ''2025-01-01'' (example_world [])) = Inr ()
   \<and> trace (snd (set_ingestion_date_if_exists ''p.d.legacy'' ''2025-01-01'' (example_world [])))
       = [GetTable ''p.d.legacy'']"
proof -
  have g: "fst (get_table ''p.d.legacy'' (example_world [])) = Inr legacy_table"
    by (simp add: get_table_def client_get_table_def external_def next_fault_def
        example_world_def)
  have n: "''Ingestion_date'' \<notin> set (map name (schema legacy_table))"
    by (simp add: legacy_table_def)
  have e: "trace (example_world []) = []"
    by (simp add: example_world_def)
  from setter_noop_without_marker [OF g n, of "''2025-01-01''"] g n e
  show ?thesis by simp
qed

text \<open>
  C7. The table identity is written between backquotes and the date between quotes, so
  the identity is taken without a backquote and the date without a quote. The only
  statement the setter sends is the UPDATE of the table that sets \<open>Ingestion_date\<close> to the
  date \<open>WHERE Ingestion_date IS NULL\<close>, and the warehouse reads it as such: it touches
  only rows whose marker is null. A row that already carries a marker is the same row
  after any call, a row without one either stays or gets the date, and nothing else of
  the table changes. After a call that returned on a table with the marker column the
  statement has been sent and no row is left without a marker; so a second call in
  succession leaves the warehouse as the first call left it.
\<close>

theorem marker_setter_idempotent:
  assumes "CHR 0x60 \<notin> set table_id" and "CHR 0x27 \<notin> set d"
  shows
  "(\<forall>q. Query q \<in> set (emitted (set_ingestion_date_if_exists table_id d) w) \<longrightarrow>
      q = ''\<newline>        UPDATE `'' @ table_id @ ''`''
            @ ''\<newline>        SET Ingestion_date = DATE('' @ [CHR 0x27] @ d @ [CHR 0x27] @ '')''
            @ ''\<newline>        WHERE Ingestion_date IS NULL''
            @ ''\<newline>        ''
      \<and> parse_update q
          = Some \<lparr>upd_table = table_id, upd_column = ''Ingestion_date'', upd_date = d,
              upd_where = IsNull ''Ingestion_date''\<rparr>)
   \<and> (fst (set_ingestion_date_if_exists table_id d w) = Inr () \<longrightarrow>
      tables (snd (set_ingestion_date_if_exists table_id d
                (snd (set_ingestion_date_if_exists table_id d w))))
      = tables (snd (set_ingestion_date_if_exists table_id d w)))
   \<and> (\<forall>t. tables w table_id = Some t \<longrightarrow>
        (\<exists>t'. tables (snd (set_ingestion_date_if_exists table_id d w)) table_id = Some t'
           \<and> schema t' = schema t
           \<and> length (rows t') = length (rows t)
           \<and> (\<forall>i < length (rows t).
                 if (rows t ! i) ''Ingestion_date'' \<noteq> None then rows t' ! i = rows t ! i
                 else rows t' ! i = rows t ! i
                      \<or> rows t' ! i = (rows t ! i)(''Ingestion_date'' \<mapsto> d))
           \<and> (fst (set_ingestion_date_if_exists table_id d w) = Inr ()
                \<and> ''Ingestion_date'' \<in> set (map name (schema t)) \<longrightarrow>
                Query (''\<newline>        UPDATE `'' @ table_id @ ''`''
            @ ''\<newline>        SET Ingestion_date = DATE('' @ [CHR 0x27] @ d @ [CHR 0x27] @ '')''
            @ ''\<newline>        WHERE Ingestion_date IS NULL''
            @ ''\<newline>        '')
                  \<in> set (emitted (set_ingestion_date_if_exists table_id d) w)
                \<and> (\<forall>i < length (rows t). (rows t' ! i) ''Ingestion_date'' \<noteq> None))))"
proof (intro conjI impI allI)
  fix q
  assume "Query q \<in> set (emitted (set_ingestion_date_if_exists table_id d) w)"
  then have q: "q = update_sql table_id d" by (rule setter_query)
  then show "q = ''\<newline>        UPDATE `'' @ table_id @ ''`''
            @ ''\<newline>        SET Ingestion_date = DATE('' @ [CHR 0x27] @ d @ [CHR 0x27] @ '')''
            @ ''\<newline>        WHERE Ingestion_date IS NULL''
            @ ''\<newline>        ''"
    by (simp add: update_sql_def)
  from q parse_update_sql [OF assms]
  show "parse_update q
          = Some \<lparr>upd_table = table_id, upd_column = ''Ingestion_date'', upd_date = d,
              upd_where = IsNull ''Ingestion_date''\<rparr>"
    by simp
next
  let ?w1 = "snd (set_ingestion_date_if_exists table_id d w)"
  let ?mark = "(\<lambda>r. if r ''Ingestion_date'' = None then r(''Ingestion_date'' \<mapsto> d) else r)"
  assume ok: "fst (set_ingestion_date_if_exists table_id d w) = Inr ()"
  from setter_success [OF assms ok] obtain t where
    t: "tables w table_id = Some t" and
    w1: "tables ?w1 =
       (if has_ingestion_date (schema t)
        then (tables w)(table_id \<mapsto> t\<lparr>rows := map ?mark (rows t)\<rparr>)
        else tables w)"
    by blast
  show "tables (snd (set_ingestion_date_if_exists table_id d ?w1)) = tables ?w1"
  proof (cases "has_ingestion_date (schema t)")
    case True
    with w1 have "tables ?w1 table_id = Some (t\<lparr>rows := map ?mark (rows t)\<rparr>)"
      by simp
    moreover have "\<forall>r \<in> set (rows (t\<lparr>rows := map ?mark (rows t)\<rparr>)).
        r ''Ingestion_date'' \<noteq> None"
      by auto
    ultimately show ?thesis
      by (intro setter_settled [OF assms]) blast+
  next
    case False
    with w1 t have "tables ?w1 table_id = Some t" by simp
    with False show ?thesis
      by (intro setter_settled [OF assms]) blast+
  qed
next
  fix t :: table
  let ?S = "set_ingestion_date_if_exists table_id d w"
  let ?mark = "(\<lambda>r. if r ''Ingestion_date'' = None then r(''Ingestion_date'' \<mapsto> d) else r)"
  let ?u = "t\<lparr>rows := map ?mark (rows t)\<rparr>"
  let ?sent = "Query (''\<newline>        UPDATE `'' @ table_id @ ''`''
            @ ''\<newline>        SET Ingestion_date = DATE('' @ [CHR 0x27] @ d @ [CHR 0x27] @ '')''
            @ ''\<newline>        WHERE Ingestion_date IS NULL''
            @ ''\<newline>        '')
      \<in> set (emitted (set_ingestion_date_if_exists table_id d) w)"
  assume t: "tables w table_id = Some t"
  have sql: "update_sql table_id d = ''\<newline>        UPDATE `'' @ table_id @ ''`''
            @ ''\<newline>        SET Ingestion_date = DATE('' @ [CHR 0x27] @ d @ [CHR 0x27] @ '')''
            @ ''\<newline>        WHERE Ingestion_date IS NULL''
            @ ''\<newline>        ''"
    by (simp add: update_sql_def)
  have "(tables (snd ?S) table_id = Some t
          \<and> \<not> (fst ?S = Inr () \<and> ''Ingestion_date'' \<in> set (map name (schema t))))
        \<or> (tables (snd ?S) table_id = Some ?u
           \<and> (fst ?S = Inr () \<and> ''Ingestion_date'' \<in> set (map name (schema t)) \<longrightarrow> ?sent))"
  proof (cases "fst ?S = Inr ()")
    case True
    from setter_success [OF assms True] t show ?thesis
      unfolding sql [symmetric]
      by (auto simp: has_ingestion_date_iff split: if_splits)
  next
    case False
    with setter_table [OF assms t] t show ?thesis by auto
  qed
  then show "\<exists>t'. tables (snd ?S) table_id = Some t'
           \<and> schema t' = schema t
           \<and> length (rows t') = length (rows t)
           \<and> (\<forall>i < length (rows t).
                 if (rows t ! i) ''Ingestion_date'' \<noteq> None then rows t' ! i = rows t ! i
                 else rows t' ! i = rows t ! i
                      \<or> rows t' ! i = (rows t ! i)(''Ingestion_date'' \<mapsto> d))
           \<and> (fst ?S = Inr ()
                \<and> ''Ingestion_date'' \<in> set (map name (schema t)) \<longrightarrow>
                Query (''\<newline>        UPDATE `'' @ table_id @ ''`''
            @ ''\<newline>        SET Ingestion_date = DATE('' @ [CHR 0x27] @ d @ [CHR 0x27] @ '')''
            @ ''\<newline>        WHERE Ingestion_date IS NULL''
            @ ''\<newline>        '')
                  \<in> set (emitted (set_ingestion_date_if_exists table_id d) w)
                \<and> (\<forall>i < length (rows t). (rows t' ! i) ''Ingestion_date'' \<noteq> None))"
  proof
    assume a: "tables (snd ?S) table_id = Some t
          \<and> \<not> (fst ?S = Inr () \<and> ''Ingestion_date'' \<in> set (map name (schema t)))"
    show ?thesis
    proof (intro exI [of _ t] conjI allI impI)
      show "tables (snd ?S) table_id = Some t" using a by blast
    next
      assume "fst ?S = Inr () \<and> ''Ingestion_date'' \<in> set (map name (schema t))"
      with a show ?sent by blast
    next
      fix i assume "fst ?S = Inr () \<and> ''Ingestion_date'' \<in> set (map name (schema t))"
      with a show "(rows t ! i) ''Ingestion_date'' \<noteq> None" by blast
    qed simp_all
  next
    assume b: "tables (snd ?S) table_id = Some ?u
           \<and> (fst ?S = Inr () \<and> ''Ingestion_date'' \<in> set (map name (schema t)) \<longrightarrow> ?sent)"
    show ?thesis
    proof (intro exI [of _ ?u] conjI allI impI)
      show "tables (snd ?S) table_id = Some ?u" using b by blast
    next
      assume "fst ?S = Inr () \<and> ''Ingestion_date'' \<in> set (map name (schema t))"
      with b show ?sent by blast
    next
      fix i assume i: "i < length (rows t)"
      then have "rows ?u ! i = ?mark (rows t ! i)" by simp
      then show "if (rows t ! i) ''Ingestion_date'' \<noteq> None then rows ?u ! i = rows t ! i
                 else rows ?u ! i = rows t ! i
                      \<or> rows ?u ! i = (rows t ! i)(''Ingestion_date'' \<mapsto> d)"
        by simp
    next
      fix i assume i: "i < length (rows t)"
      then have "rows ?u ! i = ?mark (rows t ! i)" by simp
      then show "(rows ?u ! i) ''Ingestion_date'' \<noteq> None"
        by simp
    qed simp_all
  qed
qed

theorem marker_setter_idempotent_witness:
  "CHR 0x60 \<notin> set ''p.d.orders'' \<and> CHR 0x27 \<notin> set ''2025-01-01''
   \<and> fst (set_ingestion_date_if_exists ''p.d.orders'' ''2025-01-01'' (example_world [])) = Inr ()
   \<and> tables (example_world []) ''p.d.orders'' = Some orders_table
   \<and> ''Ingestion_date'' \<in> set (map name (schema orders_table))
   \<and> Query (''\<newline>        UPDATE `p.d.orders`\<newline>        SET Ingestion_date = DATE(''
             @ [CHR 0x27] @ ''2025-01-01'' @ [CHR 0x27]
             @ '')\<newline>        WHERE Ingestion_date IS NULL\<newline>        '')
       \<in> set (emitted (set_ingestion_date_if_exists ''p.d.orders'' ''2025-01-01'')
                 (example_world []))
   \<and> tables (snd (set_ingestion_date_if_exists ''p.d.orders'' ''2025-01-01''
                (snd (set_ingestion_date_if_exists ''p.d.orders'' ''2025-01-01''
                   (example_world [])))))
      = tables (snd (set_ingestion_date_if_exists ''p.d.orders'' ''2025-01-01''
                   (example_world [])))
   \<and> (\<exists>t'. tables (snd (set_ingestion_date_if_exists ''p.d.orders'' ''2025-01-01''
                   (example_world []))) ''p.d.orders'' = Some t'
          \<and> rows t' ! 0 = rows orders_table ! 0
          \<and> (rows t' ! 1) ''Ingestion_date'' \<noteq> None)"
proof -
  let ?w = "example_world []"
  let ?S = "set_ingestion_date_if_exists ''p.d.orders'' ''2025-01-01''"
  have h: "CHR 0x60 \<notin> set ''p.d.orders''" "CHR 0x27 \<notin> set ''2025-01-01''"
    by simp_all
  have ok: "fst (?S ?w) = Inr ()"
    by (simp add: set_ingestion_date_if_exists_def has_ingestion_date_def action_defs
        client_defs next_fault_def run_update_sql [OF h] example_defs Let_def)
  have t: "tables ?w ''p.d.orders'' = Some orders_table"
    by (simp add: example_world_def)
  have m: "''Ingestion_date'' \<in> set (map name (schema orders_table))"
    by (simp add: orders_table_def)
  have r: "length (rows orders_table) = 2"
    "(rows orders_table ! 0) ''Ingestion_date'' \<noteq> None"
    by (simp_all add: orders_table_def)
  note T = marker_setter_idempotent [OF h, of ?w]
  from T ok have i: "tables (snd (?S (snd (?S ?w)))) = tables (snd (?S ?w))"
    by blast
  from T t obtain t' where
    t': "tables (snd (?S ?w)) ''p.d.orders'' = Some t'"
    and k: "\<forall>i < length (rows orders_table).
                 if (rows orders_table ! i) ''Ingestion_date'' \<noteq> None
                 then rows t' ! i = rows orders_table ! i
                 else rows t' ! i = rows orders_table ! i
                      \<or> rows t' ! i = (rows orders_table ! i)(''Ingestion_date'' \<mapsto> ''2025-01-01'')"
    and a: "fst (?S ?w) = Inr ()
                \<and> ''Ingestion_date'' \<in> set (map name (schema orders_table)) \<longrightarrow>
                Query (''\<newline>        UPDATE `'' @ ''p.d.orders'' @ ''`''
            @ ''\<newline>        SET Ingestion_date = DATE('' @ [CHR 0x27] @ ''2025-01-01'' @ [CHR 0x27] @ '')''
            @ ''\<newline>        WHERE Ingestion_date IS NULL''
            @ ''\<newline>        '')
                  \<in> set (emitted ?S ?w)
                \<and> (\<forall>i < length (rows orders_table). (rows t' ! i) ''Ingestion_date'' \<noteq> None)"
    by blast
  from a ok m have s: "Query (''\<newline>        UPDATE `'' @ ''p.d.orders'' @ ''`''
            @ ''\<newline>        SET Ingestion_date = DATE('' @ [CHR 0x27] @ ''2025-01-01'' @ [CHR 0x27] @ '')''
            @ ''\<newline>        WHERE Ingestion_date IS NULL''
            @ ''\<newline>        '')
                  \<in> set (emitted ?S ?w)"
    and a': "\<forall>i < length (rows orders_table). (rows t' ! i) ''Ingestion_date'' \<noteq> None"
    by blast+
  from s have s': "Query (''\<newline>        UPDATE `p.d.orders`\<newline>        SET Ingestion_date = DATE(''
             @ [CHR 0x27] @ ''2025-01-01'' @ [CHR 0x27]
             @ '')\<newline>        WHERE Ingestion_date IS NULL\<newline>        '')
       \<in> set (emitted ?S ?w)"
    by simp
  from k r have k0: "rows t' ! 0 = rows orders_table ! 0"
    by (metis zero_less_numeral)
  from a' r have k1: "(rows t' ! 1) ''Ingestion_date'' \<noteq> None"
    by (metis one_less_numeral_iff semiring_norm(76))
  from t' k0 k1 have e: "\<exists>t'. tables (snd (?S ?w)) ''p.d.orders'' = Some t'
          \<and> rows t' ! 0 = rows orders_table ! 0
          \<and> (rows t' ! 1) ''Ingestion_date'' \<noteq> None"
    by blast
  from h ok t m s' i e show ?thesis by (intro conjI)
qed


section \<open>Facts about what an action leaves between two worlds\<close>

lemma steps_return: "(\<And>w. R w w) \<Longrightarrow> steps R (return_action x)"
  by (simp add: steps_def return_action_def)

lemma steps_raise: "(\<And>w. R w w) \<Longrightarrow> steps R (raise e)"
  by (simp add: steps_def raise_def)

lemma steps_bind:
  assumes "\<And>a b c. R a b \<Longrightarrow> R b c \<Longrightarrow> R a c"
    and "steps R m" and "\<And>x. steps R (k x)"
  shows "steps R (bind_action m k)"
  unfolding steps_def
proof
  fix w
  show "R w (snd (bind_action m k w))"
  proof (cases "m w")
    case (Pair r w1)
    from assms(2) Pair have 1: "R w w1" by (metis steps_def snd_conv)
    show ?thesis
    proof (cases r)
      case (Inl e)
      with Pair 1 show ?thesis by (simp add: bind_action_def)
    next
      case (Inr x)
      from assms(3) [of x] have "R w1 (snd (k x w1))" by (simp add: steps_def)
      with 1 assms(1) Pair Inr show ?thesis by (auto simp: bind_action_def)
    qed
  qed
qed

lemma steps_try_except:
  assumes "\<And>a b c. R a b \<Longrightarrow> R b c \<Longrightarrow> R a c"
    and "steps R m" and "\<And>e. steps R (h e)"
  shows "steps R (try_except m h)"
  unfolding steps_def
proof
  fix w
  show "R w (snd (try_except m h w))"
  proof (cases "m w")
    case (Pair r w1)
    from assms(2) Pair have 1: "R w w1" by (metis steps_def snd_conv)
    show ?thesis
    proof (cases r)
      case (Inr x)
      with Pair 1 show ?thesis by (simp add: try_except_def)
    next
      case (Inl e)
      from assms(3) [of e] have "R w1 (snd (h e w1))" by (simp add: steps_def)
      with 1 assms(1) Pair Inl show ?thesis by (auto simp: try_except_def)
    qed
  qed
qed

lemma steps_if:
  "steps R m \<Longrightarrow> steps R n \<Longrightarrow> steps R (if b then m else n)"
  by simp

lemma steps_world_let:
  "(\<And>x. steps R (m x)) \<Longrightarrow> steps R (\<lambda>w. m (g w) w)"
  by (simp add: steps_def)

section \<open>Facts about the Staging Merge Loader\<close>

lemma schema_kept_refl: "schema_kept tid w w"
  by (simp add: schema_kept_def)

lemma schema_kept_trans:
  "schema_kept tid a b \<Longrightarrow> schema_kept tid b c \<Longrightarrow> schema_kept tid a c"
  by (auto simp: schema_kept_def)

lemma schema_kept_bind:
  "steps (schema_kept tid) m \<Longrightarrow> (\<And>x. steps (schema_kept tid) (k x)) \<Longrightarrow>
   steps (schema_kept tid) (bind_action m k)"
  by (rule steps_bind [where R = "schema_kept tid"]) (blast intro: schema_kept_trans)+

lemma schema_kept_logger: "steps (schema_kept tid) (logger l)"
  by (simp add: steps_def schema_kept_def logger_def schema_of_def)

lemma schema_kept_external:
  assumes "\<not> schema_altering tid ev"
    and "\<And>w. schema_of (snd (body w)) tid = schema_of w tid \<and> now (snd (body w)) = now w
            \<and> trace (snd (body w)) = trace w"
  shows "steps (schema_kept tid) (external ev body)"
  unfolding steps_def
proof
  fix w :: world
  let ?w1 = "w\<lparr>trace := trace w @ [ev], faults := tl (faults w)\<rparr>"
  have 1: "schema_of ?w1 tid = schema_of w tid" "now ?w1 = now w" "trace ?w1 = trace w @ [ev]"
    by (simp_all add: schema_of_def)
  show "schema_kept tid w (snd (external ev body w))"
  proof (cases "next_fault w")
    case None
    then have "external ev body w = body ?w1" by (simp add: external_def)
    with assms 1 show ?thesis by (simp add: schema_kept_def)
  next
    case (Some e)
    then have "external ev body w = (Inl e, ?w1)" by (simp add: external_def)
    with assms(1) 1 show ?thesis by (simp add: schema_kept_def)
  qed
qed

lemma schema_kept_get_table: "steps (schema_kept tid) (get_table x)"
  unfolding get_table_def client_get_table_def
  by (rule schema_kept_external) (auto split: option.splits)

lemma schema_kept_open_file: "steps (schema_kept tid) (open_file x)"
  unfolding open_file_def
  by (rule schema_kept_external) (auto split: option.splits)

lemma schema_kept_load:
  "x \<noteq> tid \<Longrightarrow> steps (schema_kept tid) (client_load_table_from_file c x)"
  unfolding client_load_table_from_file_def
  by (rule schema_kept_external) (auto simp: schema_of_def)

lemma schema_kept_delete:
  "x \<noteq> tid \<Longrightarrow> steps (schema_kept tid) (client_delete_table x)"
  unfolding client_delete_table_def
  by (rule schema_kept_external) (auto simp: schema_of_def)

lemma schema_kept_insert:
  "steps (schema_kept tid) (client_query sql (run_insert x y tt S))"
  unfolding client_query_def
  by (rule schema_kept_external)
     (auto simp: schema_of_def run_insert_def split: option.splits)

lemma staging_differs: "staging_table_id_of tid stamp \<noteq> tid"
  by (simp add: staging_table_id_of_def)

lemma schema_kept_append:
  "steps (schema_kept tid) (append_via_staging_with_casts fp tid)"
proof -
  have "\<And>stamp. steps (schema_kept tid) (\<lambda>w.
      (let staging_table_id = staging_table_id_of tid stamp in
      bind_action (logger (LoadingStaging staging_table_id)) (\<lambda>u.
      bind_action (open_file fp) (\<lambda>source_file.
      bind_action (client_load_table_from_file source_file staging_table_id) (\<lambda>u.
      bind_action (get_table tid) (\<lambda>tgt_table.
      bind_action (get_table staging_table_id) (\<lambda>stg_table.
      (case build_select_exprs (schema tgt_table) (schema stg_table) of
         Inl e \<Rightarrow> raise e
       | Inr select_exprs \<Rightarrow>
           bind_action (logger Inserting) (\<lambda>u.
           bind_action
             (client_query
                (insert_sql tid staging_table_id
                   (tgt_cols_of (schema tgt_table)) select_exprs)
                (run_insert tid staging_table_id
                   (tgt_types_of (schema tgt_table)) (stg_cols_set_of (schema stg_table))))
             (\<lambda>u.
           bind_action (client_delete_table staging_table_id) (\<lambda>u.
           logger (StagingDropped staging_table_id)))))))))) w))"
    unfolding Let_def
    apply (intro schema_kept_bind schema_kept_logger schema_kept_open_file schema_kept_load
        schema_kept_get_table staging_differs)
    apply (simp split: sum.splits)
    apply (intro conjI allI impI steps_raise schema_kept_refl)
    apply (intro schema_kept_bind schema_kept_logger schema_kept_insert schema_kept_delete
        staging_differs)
    done
  then have "steps (schema_kept tid) (\<lambda>w.
      (let staging_table_id = staging_table_id_of tid (now w) in
      bind_action (logger (LoadingStaging staging_table_id)) (\<lambda>u.
      bind_action (open_file fp) (\<lambda>source_file.
      bind_action (client_load_table_from_file source_file staging_table_id) (\<lambda>u.
      bind_action (get_table tid) (\<lambda>tgt_table.
      bind_action (get_table staging_table_id) (\<lambda>stg_table.
      (case build_select_exprs (schema tgt_table) (schema stg_table) of
         Inl e \<Rightarrow> raise e
       | Inr select_exprs \<Rightarrow>
           bind_action (logger Inserting) (\<lambda>u.
           bind_action
             (client_query
                (insert_sql tid staging_table_id
                   (tgt_cols_of (schema tgt_table)) select_exprs)
                (run_insert tid staging_table_id
                   (tgt_types_of (schema tgt_table)) (stg_cols_set_of (schema stg_table))))
             (\<lambda>u.
           bind_action (client_delete_table staging_table_id) (\<lambda>u.
           logger (StagingDropped staging_table_id)))))))))) w))"
    by (simp add: steps_def)
  then show ?thesis
    by (simp add: steps_def append_via_staging_with_casts_def)
qed

lemma append_query:
  assumes "Query q \<in> set (emitted (append_via_staging_with_casts fp tid) w)"
  shows "\<exists>t s select_exprs. tables w tid = Some t \<and> files w fp = Some s
     \<and> build_select_exprs (schema t) (schema s) = Inr select_exprs
     \<and> q = insert_sql tid (staging_table_id_of tid (now w)) (tgt_cols_of (schema t)) select_exprs"
  using assms staging_differs [of tid "now w"]
  unfolding emitted_def append_via_staging_with_casts_def
  by (auto simp: action_defs client_defs Let_def run_insert_def
      split: option.splits sum.splits if_splits)

lemma mem_image_filter:
  "c \<in> A \<Longrightarrow> (c \<in> f ` set xs) = (c \<in> f ` set (filter (\<lambda>x. f x \<in> A) xs))"
  by (induction xs) auto

lemma build_select_exprs_extra_columns:
  "build_select_exprs tgt_schema stg_schema =
   build_select_exprs tgt_schema (filter (\<lambda>f. name f \<in> set (map name tgt_schema)) stg_schema)"
proof -
  have "\<And>c. c \<in> set (map name tgt_schema) \<Longrightarrow>
      (c \<in> stg_cols_set_of stg_schema) =
      (c \<in> stg_cols_set_of (filter (\<lambda>f. name f \<in> set (map name tgt_schema)) stg_schema))"
    unfolding stg_cols_set_of_def set_map by (rule mem_image_filter) simp
  then show ?thesis
    unfolding build_select_exprs_map by (simp cong: map_cong)
qed

lemma build_select_exprs_columns:
  assumes "build_select_exprs tgt_schema stg_schema = Inr select_exprs"
    and "e \<in> set select_exprs"
  shows "\<exists>c \<in> set (map name tgt_schema). \<exists>ty.
           e = safe_cast_expr ''stg'' c ty \<or> e = ''CAST(NULL AS '' @ cast_target ty @ '') AS '' @ c"
proof -
  let ?F = "\<lambda>c. if c \<in> stg_cols_set_of stg_schema
                    then safe_cast_expr ''stg'' c (the (tgt_types_of tgt_schema c))
                    else null_expr c (the (tgt_types_of tgt_schema c))"
  from assms(1) have "select_exprs = map ?F (map name tgt_schema)"
    by (simp only: build_select_exprs_map sum.inject)
  with assms(2) have "e \<in> ?F ` set (map name tgt_schema)"
    by (simp only: set_map)
  then obtain c where c: "c \<in> set (map name tgt_schema)" and e: "e = ?F c"
    by (rule imageE)
  show ?thesis
  proof (cases "c \<in> stg_cols_set_of stg_schema")
    case True
    with e have "e = safe_cast_expr ''stg'' c (the (tgt_types_of tgt_schema c))"
      by simp
    with c show ?thesis
      by (intro bexI [of _ c] exI [of _ "the (tgt_types_of tgt_schema c)"] disjI1)
  next
    case False
    with e have "e = ''CAST(NULL AS '' @ cast_target (the (tgt_types_of tgt_schema c)) @ '') AS '' @ c"
      by (simp add: null_expr_def)
    with c show ?thesis
      by (intro bexI [of _ c] exI [of _ "the (tgt_types_of tgt_schema c)"] disjI2)
  qed
qed

lemma example_select_exprs:
  "build_select_exprs (schema orders_table) (schema orders_csv) =
     Inr [''SAFE_CAST(stg.id AS INT64) AS id'',
          ''CAST(NULL AS NUMERIC) AS total'',
          ''CAST(NULL AS DATE) AS Ingestion_date'']"
  by (simp add: build_select_exprs_def tgt_types_of_def tgt_cols_of_def stg_cols_set_of_def
      orders_table_def orders_csv_def safe_cast_expr_def null_expr_def cast_target_values)

lemma example_insert_sql:
  "insert_sql ''p.d.orders'' ''p.d.orders__stg_20250101093000''
     [''id'', ''total'', ''Ingestion_date'']
     [''SAFE_CAST(stg.id AS INT64) AS id'',
      ''CAST(NULL AS NUMERIC) AS total'',
      ''CAST(NULL AS DATE) AS Ingestion_date'']
   = ''\<newline>        INSERT INTO `p.d.orders` (id, total, Ingestion_date)\<newline>        SELECT\<newline>            SAFE_CAST(stg.id AS INT64) AS id,\<newline>            CAST(NULL AS NUMERIC) AS total,\<newline>            CAST(NULL AS DATE) AS Ingestion_date\<newline>        FROM `p.d.orders__stg_20250101093000` AS stg\<newline>        ''"
  by (simp add: insert_sql_def)

lemma example_tgt_cols:
  "tgt_cols_of (schema orders_table) = [''id'', ''total'', ''Ingestion_date'']"
  by (simp add: tgt_cols_of_def orders_table_def)

lemma example_merge_emitted:
  "emitted (append_via_staging_with_casts ''/data/orders.csv'' ''p.d.orders'') (example_world [])
   = [Log (LoadingStaging ''p.d.orders__stg_20250101093000''),
      OpenFile ''/data/orders.csv'',
      LoadTable ''p.d.orders__stg_20250101093000'',
      GetTable ''p.d.orders'',
      GetTable ''p.d.orders__stg_20250101093000'',
      Log Inserting,
      Query (insert_sql ''p.d.orders'' ''p.d.orders__stg_20250101093000''
        [''id'', ''total'', ''Ingestion_date'']
        [''SAFE_CAST(stg.id AS INT64) AS id'',
         ''CAST(NULL AS NUMERIC) AS total'',
         ''CAST(NULL AS DATE) AS Ingestion_date'']),
      DeleteTable ''p.d.orders__stg_20250101093000'',
      Log (StagingDropped ''p.d.orders__stg_20250101093000'')]"
  by (simp add: emitted_def append_via_staging_with_casts_def staging_table_id_of_def
      action_defs client_defs next_fault_def Let_def example_world_def example_select_exprs
      run_insert_def example_tgt_cols)

lemma append_emits_insert:
  assumes "tables w tid = Some t" and "files w fp = Some s" and "faults w = []"
    and "build_select_exprs (schema t) (schema s) = Inr select_exprs"
  shows "Query (insert_sql tid (staging_table_id_of tid (now w)) (tgt_cols_of (schema t))
                  select_exprs)
           \<in> set (emitted (append_via_staging_with_casts fp tid) w)"
  using assms staging_differs [of tid "now w"]
  by (simp add: emitted_def append_via_staging_with_casts_def action_defs client_defs
      next_fault_def Let_def run_insert_def)

section \<open>Claims about the Staging Merge Loader\<close>

text \<open>
  C1. Given a destination schema (an ordered list of fields with distinct names, as the
  fields of a table have) and a staging schema, of which only the set of column names is
  used, building the select list succeeds and gives exactly one expression per
  destination field, in destination order: the cast-resolver expression on the staging
  alias when the staging schema has a column of the same name (compared as it is
  written), and otherwise a NULL cast to the field's target type. The list has as many
  entries as the destination has fields, whatever extra columns the staging schema has,
  and the entry at each position is aliased to the destination name at that position.
  In a merge of a file with that staging schema into a table with that destination
  schema, every statement sent to the warehouse is the INSERT whose explicit column
  list is the destination names in destination order, separated by commas, and whose
  select list is those expressions in the same order; and when no call fails, that
  statement is sent.
\<close>

theorem select_list_follows_destination:
  assumes "distinct (map name tgt_schema)"
  shows "build_select_exprs tgt_schema stg_schema =
           Inr (map (\<lambda>f. if name f \<in> set (map name stg_schema)
                          then safe_cast_expr ''stg'' (name f) (field_type f)
                          else ''CAST(NULL AS '' @ cast_target (field_type f) @ '') AS '' @ name f)
                  tgt_schema)
         \<and> (\<forall>select_exprs. build_select_exprs tgt_schema stg_schema = Inr select_exprs \<longrightarrow>
              length select_exprs = length tgt_schema
              \<and> length (tgt_cols_of tgt_schema) = length select_exprs
              \<and> (\<forall>i < length tgt_schema.
                    tgt_cols_of tgt_schema ! i = name (tgt_schema ! i)
                    \<and> endswith (select_exprs ! i) ('' AS '' @ name (tgt_schema ! i))))
         \<and> (schema_of w tid = Some tgt_schema
            \<and> map_option schema (files w fp) = Some stg_schema \<longrightarrow>
              (\<forall>q. Query q \<in> set (emitted (append_via_staging_with_casts fp tid) w) \<longrightarrow>
                 q = ''\<newline>        INSERT INTO `'' @ tid @ ''` ('' @ join '', '' (map name tgt_schema) @ '')''
                   @ ''\<newline>        SELECT''
                   @ ''\<newline>            ''
                   @ join '',\<newline>            ''
                       (map (\<lambda>f. if name f \<in> set (map name stg_schema)
                                 then safe_cast_expr ''stg'' (name f) (field_type f)
                                 else ''CAST(NULL AS '' @ cast_target (field_type f) @ '') AS '' @ name f)
                          tgt_schema)
                   @ ''\<newline>        FROM `'' @ tid @ ''__stg_'' @ now w @ ''` AS stg''
                   @ ''\<newline>        '')
              \<and> (faults w = [] \<longrightarrow>
                  Query (''\<newline>        INSERT INTO `'' @ tid @ ''` ('' @ join '', '' (map name tgt_schema) @ '')''
                   @ ''\<newline>        SELECT''
                   @ ''\<newline>            ''
                   @ join '',\<newline>            ''
                       (map (\<lambda>f. if name f \<in> set (map name stg_schema)
                                 then safe_cast_expr ''stg'' (name f) (field_type f)
                                 else ''CAST(NULL AS '' @ cast_target (field_type f) @ '') AS '' @ name f)
                          tgt_schema)
                   @ ''\<newline>        FROM `'' @ tid @ ''__stg_'' @ now w @ ''` AS stg''
                   @ ''\<newline>        '')
                    \<in> set (emitted (append_via_staging_with_casts fp tid) w)))"
proof -
  let ?exprs = "map (\<lambda>f. if name f \<in> set (map name stg_schema)
                          then safe_cast_expr ''stg'' (name f) (field_type f)
                          else ''CAST(NULL AS '' @ cast_target (field_type f) @ '') AS '' @ name f)
                  tgt_schema"
  have "map (\<lambda>c. if c \<in> stg_cols_set_of stg_schema
                    then safe_cast_expr ''stg'' c (the (tgt_types_of tgt_schema c))
                    else null_expr c (the (tgt_types_of tgt_schema c)))
            (map name tgt_schema)
      = ?exprs"
    using assms
    by (simp add: tgt_types_of_distinct stg_cols_set_of_def null_expr_def comp_def)
  then have b: "build_select_exprs tgt_schema stg_schema = Inr ?exprs"
    by (simp only: build_select_exprs_map)
  have sql: "insert_sql tid (staging_table_id_of tid (now w)) (tgt_cols_of tgt_schema) ?exprs
      = ''\<newline>        INSERT INTO `'' @ tid @ ''` ('' @ join '', '' (map name tgt_schema) @ '')''
                   @ ''\<newline>        SELECT''
                   @ ''\<newline>            ''
                   @ join '',\<newline>            ''
                       (map (\<lambda>f. if name f \<in> set (map name stg_schema)
                                 then safe_cast_expr ''stg'' (name f) (field_type f)
                                 else ''CAST(NULL AS '' @ cast_target (field_type f) @ '') AS '' @ name f)
                          tgt_schema)
                   @ ''\<newline>        FROM `'' @ tid @ ''__stg_'' @ now w @ ''` AS stg''
                   @ ''\<newline>        ''"
    by (simp add: insert_sql_def staging_table_id_of_def tgt_cols_of_def)
  have shape: "length select_exprs = length tgt_schema
              \<and> length (tgt_cols_of tgt_schema) = length select_exprs
              \<and> (\<forall>i < length tgt_schema.
                    tgt_cols_of tgt_schema ! i = name (tgt_schema ! i)
                    \<and> endswith (select_exprs ! i) ('' AS '' @ name (tgt_schema ! i)))"
    if "build_select_exprs tgt_schema stg_schema = Inr select_exprs" for select_exprs
    using that
    by (auto simp: build_select_exprs_map tgt_cols_of_def safe_cast_expr_alias null_expr_alias)
  have run: "(\<forall>q. Query q \<in> set (emitted (append_via_staging_with_casts fp tid) w) \<longrightarrow>
                 q = insert_sql tid (staging_table_id_of tid (now w)) (tgt_cols_of tgt_schema)
                       ?exprs)
              \<and> (faults w = [] \<longrightarrow>
                  Query (insert_sql tid (staging_table_id_of tid (now w)) (tgt_cols_of tgt_schema)
                       ?exprs)
                    \<in> set (emitted (append_via_staging_with_casts fp tid) w))"
    if tgt: "schema_of w tid = Some tgt_schema"
      and stg: "map_option schema (files w fp) = Some stg_schema"
  proof (intro conjI allI impI)
    fix q
    assume "Query q \<in> set (emitted (append_via_staging_with_casts fp tid) w)"
    from append_query [OF this] obtain t s select_exprs where
      t: "tables w tid = Some t" and s: "files w fp = Some s"
      and e: "build_select_exprs (schema t) (schema s) = Inr select_exprs"
      and q: "q = insert_sql tid (staging_table_id_of tid (now w)) (tgt_cols_of (schema t))
                    select_exprs"
      by blast
    from t tgt have "schema t = tgt_schema" by (simp add: schema_of_def)
    moreover from s stg have "schema s = stg_schema" by simp
    ultimately show "q = insert_sql tid (staging_table_id_of tid (now w))
        (tgt_cols_of tgt_schema) ?exprs"
      using e q b by simp
  next
    assume f: "faults w = []"
    from tgt obtain t where t: "tables w tid = Some t" and ts: "schema t = tgt_schema"
      by (auto simp: schema_of_def)
    from stg obtain s where s: "files w fp = Some s" and ss: "schema s = stg_schema"
      by auto
    from b ts ss have "build_select_exprs (schema t) (schema s) = Inr ?exprs" by simp
    from append_emits_insert [OF t s f this] ts
    show "Query (insert_sql tid (staging_table_id_of tid (now w)) (tgt_cols_of tgt_schema)
                       ?exprs)
            \<in> set (emitted (append_via_staging_with_casts fp tid) w)"
      by simp
  qed
  from b shape run show ?thesis
    unfolding sql by blast
qed

theorem select_list_follows_destination_witness:
  "distinct (map name (schema orders_table))
   \<and> schema_of (example_world []) ''p.d.orders'' = Some (schema orders_table)
   \<and> map_option schema (files (example_world []) ''/data/orders.csv'') = Some (schema orders_csv)
   \<and> build_select_exprs (schema orders_table) (schema orders_csv)
       = Inr [''SAFE_CAST(stg.id AS INT64) AS id'',
              ''CAST(NULL AS NUMERIC) AS total'',
              ''CAST(NULL AS DATE) AS Ingestion_date'']
   \<and> Query ''\<newline>        INSERT INTO `p.d.orders` (id, total, Ingestion_date)\<newline>        SELECT\<newline>            SAFE_CAST(stg.id AS INT64) AS id,\<newline>            CAST(NULL AS NUMERIC) AS total,\<newline>            CAST(NULL AS DATE) AS Ingestion_date\<newline>        FROM `p.d.orders__stg_20250101093000` AS stg\<newline>        ''
       \<in> set (emitted (append_via_staging_with_casts ''/data/orders.csv'' ''p.d.orders'')
                 (example_world []))"
proof -
  have d: "distinct (map name (schema orders_table))"
    by (simp add: orders_table_def)
  have t: "schema_of (example_world []) ''p.d.orders'' = Some (schema orders_table)"
    by (simp add: schema_of_def example_world_def)
  have s: "map_option schema (files (example_world []) ''/data/orders.csv'')
      = Some (schema orders_csv)"
    by (simp add: example_world_def)
  have f: "faults (example_world []) = []" "now (example_world []) = ''20250101093000''"
    by (simp_all add: example_world_def)
  have n: "map name (schema orders_table) = [''id'', ''total'', ''Ingestion_date'']"
    by (simp add: orders_table_def)
  have e: "map (\<lambda>f. if name f \<in> set (map name (schema orders_csv))
                          then safe_cast_expr ''stg'' (name f) (field_type f)
                          else ''CAST(NULL AS '' @ cast_target (field_type f) @ '') AS '' @ name f)
             (schema orders_table)
      = [''SAFE_CAST(stg.id AS INT64) AS id'',
         ''CAST(NULL AS NUMERIC) AS total'',
         ''CAST(NULL AS DATE) AS Ingestion_date'']"
    by (simp add: orders_table_def orders_csv_def safe_cast_expr_def cast_target_values)
  note T = select_list_follows_destination [OF d, of "schema orders_csv" "example_world []"
      "''p.d.orders''" "''/data/orders.csv''"]
  from T have 1: "build_select_exprs (schema orders_table) (schema orders_csv)
       = Inr [''SAFE_CAST(stg.id AS INT64) AS id'',
              ''CAST(NULL AS NUMERIC) AS total'',
              ''CAST(NULL AS DATE) AS Ingestion_date'']"
    unfolding e by (rule conjunct1)
  from T [THEN conjunct2, THEN conjunct2, THEN mp, OF conjI [OF t s], THEN conjunct2, THEN mp,
      OF f(1)]
  have 2: "Query ''\<newline>        INSERT INTO `p.d.orders` (id, total, Ingestion_date)\<newline>        SELECT\<newline>            SAFE_CAST(stg.id AS INT64) AS id,\<newline>            CAST(NULL AS NUMERIC) AS total,\<newline>            CAST(NULL AS DATE) AS Ingestion_date\<newline>        FROM `p.d.orders__stg_20250101093000` AS stg\<newline>        ''
       \<in> set (emitted (append_via_staging_with_casts ''/data/orders.csv'' ''p.d.orders'')
                 (example_world []))"
    unfolding e n f(2) by simp
  from d t s 1 2 show ?thesis by (intro conjI)
qed


text \<open>
  C3. Whatever the world and however the calls of the merge end, the destination table
  has the same schema after the merge as before it, and none of the calls the merge makes
  is a schema update, a load or a drop of the destination. The only statement it ever
  sends is the INSERT-SELECT built from the destination's own fields: the statement is
  the one that would be built had the staging table only the columns it shares with the
  destination, and each of its expressions is a cast of a staging column named like a
  destination field or a typed NULL for one, so a staging column absent from the
  destination is merged nowhere and is no error.
\<close>

theorem merge_keeps_destination_schema:
  "schema_of (snd (append_via_staging_with_casts fp tid w)) tid = schema_of w tid
   \<and> trace (snd (append_via_staging_with_casts fp tid w))
       = trace w @ emitted (append_via_staging_with_casts fp tid) w
   \<and> (\<forall>ev \<in> set (emitted (append_via_staging_with_casts fp tid) w).
        \<not> schema_altering tid ev
        \<and> (\<forall>q. ev = Query q \<longrightarrow>
             (\<exists>t s select_exprs. tables w tid = Some t \<and> files w fp = Some s
                \<and> build_select_exprs (schema t) (schema s) = Inr select_exprs
                \<and> build_select_exprs (schema t)
                     (filter (\<lambda>f. name f \<in> set (map name (schema t))) (schema s))
                   = Inr select_exprs
                \<and> (\<forall>e \<in> set select_exprs. \<exists>c \<in> set (map name (schema t)). \<exists>ty.
                      e = safe_cast_expr ''stg'' c ty
                      \<or> e = ''CAST(NULL AS '' @ cast_target ty @ '') AS '' @ c)
                \<and> q = insert_sql tid (staging_table_id_of tid (now w))
                        (map name (schema t)) select_exprs)))"
proof (intro conjI ballI allI impI)
  let ?A = "append_via_staging_with_casts fp tid"
  from schema_kept_append [of tid fp] have k: "schema_kept tid w (snd (?A w))"
    by (simp add: steps_def)
  then show "schema_of (snd (?A w)) tid = schema_of w tid"
    by (simp add: schema_kept_def)
  from k obtain evs where evs: "trace (snd (?A w)) = trace w @ evs"
    and na: "list_all (\<lambda>ev. \<not> schema_altering tid ev) evs"
    unfolding schema_kept_def by blast
  then have em: "emitted ?A w = evs" by (simp add: emitted_def)
  with evs show "trace (snd (?A w)) = trace w @ emitted ?A w" by simp
  fix ev
  assume ev: "ev \<in> set (emitted ?A w)"
  with em na show "\<not> schema_altering tid ev" by (simp add: list_all_iff)
  fix q
  assume "ev = Query q"
  with ev have "Query q \<in> set (emitted ?A w)" by simp
  from append_query [OF this] obtain t s select_exprs where
    t: "tables w tid = Some t" and s: "files w fp = Some s"
    and b: "build_select_exprs (schema t) (schema s) = Inr select_exprs"
    and q: "q = insert_sql tid (staging_table_id_of tid (now w)) (tgt_cols_of (schema t)) select_exprs"
    by blast
  from b have b': "build_select_exprs (schema t)
                     (filter (\<lambda>f. name f \<in> set (map name (schema t))) (schema s))
                   = Inr select_exprs"
    using build_select_exprs_extra_columns [of "schema t" "schema s"] by simp
  from b have c: "\<forall>e \<in> set select_exprs. \<exists>c \<in> set (map name (schema t)). \<exists>ty.
                      e = safe_cast_expr ''stg'' c ty
                      \<or> e = ''CAST(NULL AS '' @ cast_target ty @ '') AS '' @ c"
    using build_select_exprs_columns [of "schema t" "schema s" select_exprs] by blast
  from q have q': "q = insert_sql tid (staging_table_id_of tid (now w))
                        (map name (schema t)) select_exprs"
    by (simp add: tgt_cols_of_def)
  from t s b b' c q'
  show "\<exists>t s select_exprs. tables w tid = Some t \<and> files w fp = Some s
                \<and> build_select_exprs (schema t) (schema s) = Inr select_exprs
                \<and> build_select_exprs (schema t)
                     (filter (\<lambda>f. name f \<in> set (map name (schema t))) (schema s))
                   = Inr select_exprs
                \<and> (\<forall>e \<in> set select_exprs. \<exists>c \<in> set (map name (schema t)). \<exists>ty.
                      e = safe_cast_expr ''stg'' c ty
                      \<or> e = ''CAST(NULL AS '' @ cast_target ty @ '') AS '' @ c)
                \<and> q = insert_sql tid (staging_table_id_of tid (now w))
                        (map name (schema t)) select_exprs"
    by blast
qed

theorem merge_keeps_destination_schema_witness:
  "Query (insert_sql ''p.d.orders'' ''p.d.orders__stg_20250101093000''
        [''id'', ''total'', ''Ingestion_date'']
        [''SAFE_CAST(stg.id AS INT64) AS id'',
         ''CAST(NULL AS NUMERIC) AS total'',
         ''CAST(NULL AS DATE) AS Ingestion_date''])
     \<in> set (emitted (append_via_staging_with_casts ''/data/orders.csv'' ''p.d.orders'')
               (example_world []))
   \<and> ''note'' \<in> set (map name (schema orders_csv))
   \<and> ''note'' \<notin> set (map name (schema orders_table))
   \<and> schema_of (snd (append_via_staging_with_casts ''/data/orders.csv'' ''p.d.orders''
                       (example_world []))) ''p.d.orders''
       = Some (schema orders_table)
   \<and> \<not> schema_altering ''p.d.orders''
         (Query (insert_sql ''p.d.orders'' ''p.d.orders__stg_20250101093000''
            [''id'', ''total'', ''Ingestion_date'']
            [''SAFE_CAST(stg.id AS INT64) AS id'',
             ''CAST(NULL AS NUMERIC) AS total'',
             ''CAST(NULL AS DATE) AS Ingestion_date'']))"
proof -
  let ?A = "append_via_staging_with_casts ''/data/orders.csv'' ''p.d.orders''"
  let ?q = "insert_sql ''p.d.orders'' ''p.d.orders__stg_20250101093000''
        [''id'', ''total'', ''Ingestion_date'']
        [''SAFE_CAST(stg.id AS INT64) AS id'',
         ''CAST(NULL AS NUMERIC) AS total'',
         ''CAST(NULL AS DATE) AS Ingestion_date'']"
  note T = merge_keeps_destination_schema [of "''/data/orders.csv''" "''p.d.orders''" "example_world []"]
  have h: "Query ?q \<in> set (emitted ?A (example_world []))"
    by (simp only: example_merge_emitted) simp
  have n: "''note'' \<in> set (map name (schema orders_csv))"
    "''note'' \<notin> set (map name (schema orders_table))"
    by (simp_all add: orders_csv_def orders_table_def)
  have s0: "schema_of (example_world []) ''p.d.orders'' = Some (schema orders_table)"
    by (simp add: schema_of_def example_world_def)
  from T have "schema_of (snd (?A (example_world []))) ''p.d.orders''
      = schema_of (example_world []) ''p.d.orders''"
    by (rule conjunct1)
  with s0 have 1: "schema_of (snd (?A (example_world []))) ''p.d.orders''
      = Some (schema orders_table)"
    by simp
  from T [THEN conjunct2, THEN conjunct2, THEN bspec, OF h]
  have 2: "\<not> schema_altering ''p.d.orders'' (Query ?q)"
    by (rule conjunct1)
  from h n 1 2 show ?thesis by (intro conjI)
qed

text \<open>
  C4. The staging table is to be dropped after the merge whether the INSERT-SELECT step
  succeeds or fails. Here the merge runs on the example world with the four calls before
  the INSERT-SELECT succeeding and the INSERT-SELECT failing: the merge raises that
  failure, no drop of the staging table is among the calls made, and the staging table
  is still in the warehouse afterwards.
\<close>

theorem staging_table_left_behind:
  "fst (append_via_staging_with_casts ''/data/orders.csv'' ''p.d.orders''
          (example_world [None, None, None, None, Some (OtherError ''insert failed'')]))
     = Inl (OtherError ''insert failed'')
   \<and> DeleteTable ''p.d.orders__stg_20250101093000''
       \<notin> set (trace (snd (append_via_staging_with_casts ''/data/orders.csv'' ''p.d.orders''
          (example_world [None, None, None, None, Some (OtherError ''insert failed'')]))))
   \<and> tables (snd (append_via_staging_with_casts ''/data/orders.csv'' ''p.d.orders''
          (example_world [None, None, None, None, Some (OtherError ''insert failed'')])))
       ''p.d.orders__stg_20250101093000'' = Some orders_csv"
  by (simp add: append_via_staging_with_casts_def staging_table_id_of_def action_defs
      client_defs next_fault_def Let_def example_world_def example_select_exprs)


section \<open>Facts about the Batch Orchestrator\<close>

lemma uploads_begun_append: "uploads_begun (xs @ ys) = uploads_begun xs @ uploads_begun ys"
  by (induction xs rule: uploads_begun.induct) simp_all

lemma removals_attempted_append:
  "removals_attempted (xs @ ys) = removals_attempted xs @ removals_attempted ys"
  by (induction xs rule: removals_attempted.induct) simp_all

lemma emits_refl: "emits [] [] w w"
  by (simp add: emits_def)

lemma emits_trans:
  "emits u1 r1 a b \<Longrightarrow> emits u2 r2 b c \<Longrightarrow> emits (u1 @ u2) (r1 @ r2) a c"
  by (auto simp: emits_def uploads_begun_append removals_attempted_append)

lemma emits_quiet_after: "emits u r a b \<Longrightarrow> emits [] [] b c \<Longrightarrow> emits u r a c"
  using emits_trans [of u r a b "[]" "[]" c] by simp

lemma emits_emitted:
  "emits u r w (snd (m w)) \<Longrightarrow>
   trace (snd (m w)) = trace w @ emitted m w \<and> uploads_begun (emitted m w) = u
   \<and> removals_attempted (emitted m w) = r"
  by (auto simp: emits_def emitted_def)

text \<open>Pieces that begin no upload and remove no file.\<close>

lemma quiet_bind:
  "steps (emits [] []) m \<Longrightarrow> (\<And>x. steps (emits [] []) (k x)) \<Longrightarrow>
   steps (emits [] []) (bind_action m k)"
  by (rule steps_bind [where R = "emits [] []"]) (auto dest: emits_quiet_after)

lemma quiet_try_except:
  "steps (emits [] []) m \<Longrightarrow> (\<And>e. steps (emits [] []) (h e)) \<Longrightarrow>
   steps (emits [] []) (try_except m h)"
  by (rule steps_try_except [where R = "emits [] []"]) (auto dest: emits_quiet_after)

lemma quiet_return: "steps (emits [] []) (return_action x)"
  by (simp add: steps_return emits_refl)

lemma quiet_raise: "steps (emits [] []) (raise e)"
  by (simp add: steps_raise emits_refl)

lemma quiet_logger: "uploads_begun [Log l] = [] \<Longrightarrow> steps (emits [] []) (logger l)"
  by (simp add: steps_def emits_def logger_def)

lemma quiet_external:
  assumes "uploads_begun [ev] = []" and "removals_attempted [ev] = []"
    and "\<And>w. trace (snd (body w)) = trace w"
  shows "steps (emits [] []) (external ev body)"
  unfolding steps_def
proof
  fix w :: world
  let ?w1 = "w\<lparr>trace := trace w @ [ev], faults := tl (faults w)\<rparr>"
  have "trace (snd (external ev body w)) = trace w @ [ev]"
    using assms(3) [of ?w1] by (cases "next_fault w") (simp_all add: external_def)
  with assms(1,2) show "emits [] [] w (snd (external ev body w))"
    by (simp add: emits_def)
qed

lemma quiet_get_table: "steps (emits [] []) (get_table x)"
  unfolding get_table_def client_get_table_def
  by (rule quiet_external) (auto split: option.splits)

lemma quiet_client_get_table: "steps (emits [] []) (client_get_table x)"
  unfolding client_get_table_def
  by (rule quiet_external) (auto split: option.splits)

lemma quiet_open_file: "steps (emits [] []) (open_file x)"
  unfolding open_file_def
  by (rule quiet_external) (auto split: option.splits)

lemma quiet_load: "steps (emits [] []) (client_load_table_from_file c x)"
  unfolding client_load_table_from_file_def
  by (rule quiet_external) auto

lemma quiet_delete: "steps (emits [] []) (client_delete_table x)"
  unfolding client_delete_table_def
  by (rule quiet_external) auto

lemma quiet_update_table: "steps (emits [] []) (client_update_table x sch)"
  unfolding client_update_table_def
  by (rule quiet_external) (auto split: option.splits)

lemma quiet_insert: "steps (emits [] []) (client_query sql (run_insert x y tt S))"
  unfolding client_query_def
  by (rule quiet_external) (auto simp: run_insert_def split: option.splits)

lemma quiet_update: "steps (emits [] []) (client_query sql (run_update x))"
  unfolding client_query_def
  by (rule quiet_external) (auto simp: run_update_def exec_update_def split: option.splits)

lemma quiet_table_exists: "steps (emits [] []) (table_exists x)"
  unfolding table_exists_def
  by (intro quiet_try_except quiet_bind quiet_return quiet_client_get_table)

lemma quiet_setter: "steps (emits [] []) (set_ingestion_date_if_exists x d)"
  unfolding set_ingestion_date_if_exists_def
  by (intro quiet_bind quiet_get_table)
     (simp add: quiet_return quiet_bind quiet_update quiet_logger Let_def)

lemma quiet_ensure: "steps (emits [] []) (ensure_ingestion_date_column x)"
  unfolding ensure_ingestion_date_column_def
  by (intro quiet_bind quiet_get_table)
     (simp add: quiet_return quiet_bind quiet_update_table quiet_logger)

lemma quiet_create: "steps (emits [] []) (create_table_and_load fp x)"
  unfolding create_table_and_load_def
  by (intro quiet_bind quiet_open_file quiet_load quiet_ensure quiet_logger) simp_all

lemma quiet_append: "steps (emits [] []) (append_via_staging_with_casts fp x)"
proof -
  have "\<And>stamp. steps (emits [] []) (\<lambda>w.
      (let staging_table_id = staging_table_id_of x stamp in
      bind_action (logger (LoadingStaging staging_table_id)) (\<lambda>u.
      bind_action (open_file fp) (\<lambda>source_file.
      bind_action (client_load_table_from_file source_file staging_table_id) (\<lambda>u.
      bind_action (get_table x) (\<lambda>tgt_table.
      bind_action (get_table staging_table_id) (\<lambda>stg_table.
      (case build_select_exprs (schema tgt_table) (schema stg_table) of
         Inl e \<Rightarrow> raise e
       | Inr select_exprs \<Rightarrow>
           bind_action (logger Inserting) (\<lambda>u.
           bind_action
             (client_query
                (insert_sql x staging_table_id
                   (tgt_cols_of (schema tgt_table)) select_exprs)
                (run_insert x staging_table_id
                   (tgt_types_of (schema tgt_table)) (stg_cols_set_of (schema stg_table))))
             (\<lambda>u.
           bind_action (client_delete_table staging_table_id) (\<lambda>u.
           logger (StagingDropped staging_table_id)))))))))) w))"
    unfolding Let_def
    by (intro quiet_bind quiet_logger quiet_open_file quiet_load quiet_get_table)
       (simp_all add: quiet_raise quiet_bind quiet_logger quiet_insert quiet_delete
          split: sum.splits)
  then show ?thesis
    by (simp add: steps_def append_via_staging_with_casts_def)
qed

text \<open>One upload, one file, the whole listing.\<close>

lemma emits_upload_csv: "steps (emits [(fp, tid)] []) (upload_csv fp tid)"
  unfolding steps_def
proof
  fix w :: world
  let ?w1 = "w\<lparr>trace := trace w @ [Log (Uploading fp tid)]\<rparr>"
  let ?rest = "\<lambda>d. bind_action (table_exists tid) (\<lambda>ex.
        if ex
        then bind_action (append_via_staging_with_casts fp tid)
               (\<lambda>u. set_ingestion_date_if_exists tid d)
        else bind_action (create_table_and_load fp tid)
               (\<lambda>u. set_ingestion_date_if_exists tid d))"
  have q: "steps (emits [] []) (?rest d)" for d
    by (intro quiet_bind quiet_table_exists)
       (simp add: quiet_bind quiet_append quiet_create quiet_setter)
  have "upload_csv fp tid w = ?rest (today w) ?w1"
    by (simp add: upload_csv_def Let_def bind_action_def logger_def)
  moreover have "emits [(fp, tid)] [] w ?w1"
    by (simp add: emits_def)
  moreover from q [of "today w"] have "emits [] [] ?w1 (snd (?rest (today w) ?w1))"
    by (simp add: steps_def)
  ultimately show "emits [(fp, tid)] [] w (snd (upload_csv fp tid w))"
    by (simp add: emits_quiet_after)
qed

lemma emits_bind_quiet:
  assumes "steps (emits u r) m" and "\<And>x. steps (emits [] []) (k x)"
  shows "steps (emits u r) (bind_action m k)"
  unfolding steps_def
proof
  fix w
  show "emits u r w (snd (bind_action m k w))"
  proof (cases "m w")
    case (Pair res w1)
    from assms(1) Pair have 1: "emits u r w w1" by (metis steps_def snd_conv)
    show ?thesis
    proof (cases res)
      case (Inl e)
      with Pair 1 show ?thesis by (simp add: bind_action_def)
    next
      case (Inr x)
      from assms(2) [of x] have "emits [] [] w1 (snd (k x w1))" by (simp add: steps_def)
      with 1 Pair Inr show ?thesis by (simp add: bind_action_def emits_quiet_after)
    qed
  qed
qed

lemma emits_try_except_quiet:
  assumes "steps (emits u r) m" and "\<And>e. steps (emits [] []) (h e)"
  shows "steps (emits u r) (try_except m h)"
  unfolding steps_def
proof
  fix w
  show "emits u r w (snd (try_except m h w))"
  proof (cases "m w")
    case (Pair res w1)
    from assms(1) Pair have 1: "emits u r w w1" by (metis steps_def snd_conv)
    show ?thesis
    proof (cases res)
      case (Inr x)
      with Pair 1 show ?thesis by (simp add: try_except_def)
    next
      case (Inl e)
      from assms(2) [of e] have "emits [] [] w1 (snd (h e w1))" by (simp add: steps_def)
      with 1 Pair Inl show ?thesis by (simp add: try_except_def emits_quiet_after)
    qed
  qed
qed

lemma emits_try_finally:
  assumes "steps (emits u1 r1) m" and "steps (emits u2 r2) fin"
  shows "steps (emits (u1 @ u2) (r1 @ r2)) (try_finally m fin)"
  unfolding steps_def
proof
  fix w
  obtain res w1 where m: "m w = (res, w1)" by (cases "m w")
  obtain res2 w2 where f: "fin w1 = (res2, w2)" by (cases "fin w1")
  from assms(1) m have "emits u1 r1 w w1" by (metis steps_def snd_conv)
  moreover from assms(2) f have "emits u2 r2 w1 w2" by (metis steps_def snd_conv)
  ultimately have "emits (u1 @ u2) (r1 @ r2) w w2" by (rule emits_trans)
  moreover from m f have "snd (try_finally m fin w) = w2"
    by (cases res2) (simp_all add: try_finally_def)
  ultimately show "emits (u1 @ u2) (r1 @ r2) w (snd (try_finally m fin w))" by simp
qed

lemma emits_os_remove: "steps (emits [] [fp]) (os_remove fp)"
  unfolding steps_def
proof
  fix w :: world
  have "trace (snd (os_remove fp w)) = trace w @ [RemoveFile fp]"
    by (cases "next_fault w")
       (simp_all add: os_remove_def external_def Let_def split: option.splits)
  then show "emits [] [fp] w (snd (os_remove fp w))"
    by (simp add: emits_def)
qed

lemma emits_process_file:
  "steps (emits [(file_path_of self n, table_id_of self n)] [file_path_of self n])
     (process_file self n)"
proof -
  have 1: "steps (emits [(file_path_of self n, table_id_of self n)] [])
     (try_except
           (bind_action (upload_csv (file_path_of self n) (table_id_of self n))
              (\<lambda>u. logger (Finished n)))
           (\<lambda>e. logger (Failed n e)))"
    by (intro emits_try_except_quiet emits_bind_quiet emits_upload_csv quiet_logger) simp_all
  have 2: "steps (emits [] [file_path_of self n])
     (try_except
           (bind_action (os_remove (file_path_of self n)) (\<lambda>u. logger (Deleted n)))
           (\<lambda>e. logger (CouldNotDelete n e)))"
    by (intro emits_try_except_quiet emits_bind_quiet emits_os_remove quiet_logger) simp_all
  from emits_try_finally [OF 1 2] show ?thesis
    by (simp add: process_file_def Let_def)
qed

lemma try_except_logger_returns:
  "fst (try_except (bind_action m (\<lambda>u. logger l)) (\<lambda>e. logger (h e)) w) = Inr ()"
  by (cases "m w"; cases "fst (m w)")
     (auto simp: try_except_def bind_action_def logger_def)

lemma process_file_returns: "fst (process_file self n w) = Inr ()"
proof -
  let ?m = "try_except
           (bind_action (upload_csv (file_path_of self n) (table_id_of self n))
              (\<lambda>u. logger (Finished n)))
           (\<lambda>e. logger (Failed n e))"
  let ?f = "try_except
           (bind_action (os_remove (file_path_of self n)) (\<lambda>u. logger (Deleted n)))
           (\<lambda>e. logger (CouldNotDelete n e))"
  obtain r w1 where m: "?m w = (r, w1)" by (cases "?m w")
  with try_except_logger_returns [of "upload_csv (file_path_of self n) (table_id_of self n)"
      "Finished n" "Failed n" w]
  have r: "r = Inr ()" by simp
  obtain r2 w2 where f: "?f w1 = (r2, w2)" by (cases "?f w1")
  with try_except_logger_returns [of "os_remove (file_path_of self n)"
      "Deleted n" "CouldNotDelete n" w1]
  have r2: "r2 = Inr ()" by simp
  from m f r r2 show ?thesis
    by (simp add: process_file_def Let_def try_finally_def)
qed

lemma upload_loop_emits:
  "fst (upload_loop self listing w) = Inr ()
   \<and> emits (map (\<lambda>n. (file_path_of self n, table_id_of self n)) (filter considered listing))
           (map (file_path_of self) (filter considered listing))
           w (snd (upload_loop self listing w))"
proof (induction listing arbitrary: w)
  case Nil
  show ?case by (simp add: return_action_def emits_refl)
next
  case (Cons n rest)
  show ?case
  proof (cases "considered n")
    case False
    with Cons.IH [of w] show ?thesis by simp
  next
    case True
    obtain r w1 where p: "process_file self n w = (r, w1)" by (cases "process_file self n w")
    with process_file_returns [of self n w] have r: "r = Inr ()" by simp
    from emits_process_file [of self n] p
    have e1: "emits [(file_path_of self n, table_id_of self n)] [file_path_of self n] w w1"
      by (metis steps_def snd_conv)
    from True p r have u: "upload_loop self (n # rest) w = upload_loop self rest w1"
      by (simp add: bind_action_def)
    from emits_trans [OF e1 Cons.IH [of w1, THEN conjunct2]] Cons.IH [of w1] u True
    show ?thesis by simp
  qed
qed

lemma example_considered:
  "considered ''orders.csv''" "\<not> considered ''notes.txt''" "considered ''Legacy.CSV''"
  "considered ''new.csv''"
  by (simp_all add: considered_def endswith_def lower_def case_tables)

lemma example_table_ids:
  "table_id_of \<lparr>project_id = ''p'', dataset_id = ''d'', download_path = ''/data''\<rparr> ''orders.csv''
     = ''p.d.orders''"
  "table_id_of \<lparr>project_id = ''p'', dataset_id = ''d'', download_path = ''/data''\<rparr> ''Legacy.CSV''
     = ''p.d.legacy''"
  "table_id_of \<lparr>project_id = ''p'', dataset_id = ''d'', download_path = ''/data''\<rparr> ''new.csv''
     = ''p.d.new''"
  by (simp_all add: table_id_of_def splitext_def rfind_def lower_def case_tables Let_def)

lemma example_file_paths:
  "file_path_of \<lparr>project_id = ''p'', dataset_id = ''d'', download_path = ''/data''\<rparr> ''orders.csv''
     = ''/data/orders.csv''"
  "file_path_of \<lparr>project_id = ''p'', dataset_id = ''d'', download_path = ''/data''\<rparr> ''Legacy.CSV''
     = ''/data/Legacy.CSV''"
  "file_path_of \<lparr>project_id = ''p'', dataset_id = ''d'', download_path = ''/data''\<rparr> ''new.csv''
     = ''/data/new.csv''"
  by (simp_all add: file_path_of_def path_join_def endswith_def)

section \<open>Claims about the Batch Orchestrator\<close>

text \<open>
  C6. For every listing of candidate files, every world and every way the calls of the
  run end, \<open>upload_all_csvs\<close> returns without raising: an exception raised while one file
  is processed stops at the orchestrator. The uploads begun are, in order, those of all
  the considered files of the listing, so no file is kept from being attempted by a
  failure before it, and the removal of the local copy is attempted for each considered
  file, in the same order, whether its processing succeeded or failed.
\<close>

theorem batch_isolates_failures:
  "fst (upload_all_csvs self listing w) = Inr ()
   \<and> trace (snd (upload_all_csvs self listing w))
       = trace w @ emitted (upload_all_csvs self listing) w
   \<and> uploads_begun (emitted (upload_all_csvs self listing) w)
       = map (\<lambda>file_name. (file_path_of self file_name, table_id_of self file_name))
           (filter considered listing)
   \<and> removals_attempted (emitted (upload_all_csvs self listing) w)
       = map (file_path_of self) (filter considered listing)"
proof -
  let ?w1 = "w\<lparr>trace := trace w @ [Log (Scanning (download_path self))]\<rparr>"
  have u: "upload_all_csvs self listing w = upload_loop self listing ?w1"
    by (simp add: upload_all_csvs_def bind_action_def logger_def)
  have "emits [] [] w ?w1" by (simp add: emits_def)
  from emits_trans [OF this upload_loop_emits [of self listing ?w1, THEN conjunct2]] u
  have "emits (map (\<lambda>n. (file_path_of self n, table_id_of self n)) (filter considered listing))
           (map (file_path_of self) (filter considered listing))
           w (snd (upload_all_csvs self listing w))"
    by simp
  from emits_emitted [where m = "upload_all_csvs self listing", OF this]
    upload_loop_emits [of self listing ?w1] u
  show ?thesis by simp
qed

theorem batch_isolates_failures_witness:
  "fst (upload_all_csvs \<lparr>project_id = ''p'', dataset_id = ''d'', download_path = ''/data''\<rparr>
          [''orders.csv'', ''notes.txt'', ''Legacy.CSV'', ''new.csv'']
          (example_world [None, None, None, None, None, Some (OtherError ''insert failed'')]))
     = Inr ()
   \<and> uploads_begun (emitted
        (upload_all_csvs \<lparr>project_id = ''p'', dataset_id = ''d'', download_path = ''/data''\<rparr>
          [''orders.csv'', ''notes.txt'', ''Legacy.CSV'', ''new.csv''])
        (example_world [None, None, None, None, None, Some (OtherError ''insert failed'')]))
     = [(''/data/orders.csv'', ''p.d.orders''), (''/data/Legacy.CSV'', ''p.d.legacy''),
        (''/data/new.csv'', ''p.d.new'')]
   \<and> removals_attempted (emitted
        (upload_all_csvs \<lparr>project_id = ''p'', dataset_id = ''d'', download_path = ''/data''\<rparr>
          [''orders.csv'', ''notes.txt'', ''Legacy.CSV'', ''new.csv''])
        (example_world [None, None, None, None, None, Some (OtherError ''insert failed'')]))
     = [''/data/orders.csv'', ''/data/Legacy.CSV'', ''/data/new.csv'']"
  using batch_isolates_failures
    [of "\<lparr>project_id = ''p'', dataset_id = ''d'', download_path = ''/data''\<rparr>"
        "[''orders.csv'', ''notes.txt'', ''Legacy.CSV'', ''new.csv'']"
        "example_world [None, None, None, None, None, Some (OtherError ''insert failed'')]"]
  by (simp add: example_considered example_table_ids example_file_paths)


section \<open>Facts about file names\<close>
















section \<open>Claims about file names and table identities\<close>




end
